theory Spec2Isabelle
  imports Main "HOL-Library.Char_ord" "HOL-Library.List_Lexorder" "HOL-Library.Multiset"
begin

section \<open>The PDF combiner script (pdf\_merger.py)\<close>

text \<open>
  The script walks a folder tree, sorts the folders and, in each folder, the files whose
  name ends in \<open>.pdf\<close> by a natural-sort key, appends every such file to a
  \<open>PdfMerger\<close> and writes the merged document to
  \<open>output_folder/combined_pdf.pdf\<close>.

  Modelling decisions.
  \<^item> A Python \<open>str\<close> is a list of code points. The model covers the code points
    below 256 (ASCII and Latin-1), one \<^typ>\<open>char\<close> each: \<open>CHR 0xB2\<close> is the
    character SUPERSCRIPT TWO. On this range the predicates of the standard library are
    written out exactly.
  \<^item> An exception is a value of the type \<open>error\<close>; a function that may raise returns
    \<open>error + 'a\<close>, with \<open>Inl\<close> for the exception.
  \<^item> The file system is a finite tree of folders and files; the order of the entries of a
    folder is the order in which the operating system lists them. Paths are POSIX paths.
  \<^item> What the script does to the outside world (folder creation, directory reads, calls of
    the merger, console output, the written file) is recorded, in order, as a list of events.
  \<^item> Calls of the operating system succeed whenever the modelled file system allows them
    (no permission errors, no full disk); \<open>os.walk\<close> ignores the error of a folder it
    cannot list, as the standard library does by default.
\<close>

subsection \<open>Characters and strings of the standard library\<close>

text \<open>The regular expression class \<open>\d\<close>: the decimal digits (category Nd).\<close>

definition is_decimal :: "char \<Rightarrow> bool" where
  "is_decimal c = (c \<in> set ''0123456789'')"

text \<open>
  The characters \<open>str.isdigit\<close> accepts: the decimal digits and the characters that
  only have the Unicode property Numeric\_Type=Digit, which below 256 are the superscripts
  two, three and one.
\<close>

definition is_digit_char :: "char \<Rightarrow> bool" where
  "is_digit_char c = (is_decimal c \<or> c \<in> set [CHR 0xB2, CHR 0xB3, CHR 0xB9])"

text \<open>\<open>s.isdigit()\<close>: at least one character, and all of them digits.\<close>

definition str_isdigit :: "string \<Rightarrow> bool" where
  "str_isdigit s = (s \<noteq> [] \<and> list_all is_digit_char s)"

text \<open>
  \<open>s.lower()\<close>: the capital letters A to Z and, in Latin-1, 0xC0 to 0xDE without the
  multiplication sign 0xD7 move up by 32.
\<close>

definition lower_char :: "char \<Rightarrow> char" where
  "lower_char c =
     (let n = (of_char c :: nat)
      in if (65 \<le> n \<and> n \<le> 90) \<or> (192 \<le> n \<and> n \<le> 222 \<and> n \<noteq> 215)
         then char_of (n + 32) else c)"

definition str_lower :: "string \<Rightarrow> string" where
  "str_lower s = map lower_char s"

text \<open>\<open>s.endswith(suffix)\<close>.\<close>

definition endswith :: "string \<Rightarrow> string \<Rightarrow> bool" where
  "endswith s suffix =
     (length suffix \<le> length s \<and> drop (length s - length suffix) s = suffix)"

text \<open>
  \<open>re.split(r'(\d+)', s)\<close>: the text before the first match of \<open>\d+\<close>, the match
  (the group is captured, so it is part of the result), and the split of what follows the
  match; the whole string when nothing matches. A match of \<open>\d+\<close> is greedy, so it
  is a maximal run of decimal digits.
\<close>

function re_split :: "string \<Rightarrow> string list" where
  "re_split s =
     (case dropWhile (\<lambda>c. \<not> is_decimal c) s of
        [] \<Rightarrow> [s]
      | d # ds \<Rightarrow>
          takeWhile (\<lambda>c. \<not> is_decimal c) s
            # (d # takeWhile is_decimal ds)
            # re_split (dropWhile is_decimal ds))"
  by pat_completeness auto
termination
proof (relation "measure length")
  fix s :: string and d ds
  assume "dropWhile (\<lambda>c. \<not> is_decimal c) s = d # ds"
  then have "length (d # ds) \<le> length s"
    by (metis length_dropWhile_le)
  moreover have "length (dropWhile is_decimal ds) \<le> length ds"
    by (rule length_dropWhile_le)
  ultimately show "(dropWhile is_decimal ds, s) \<in> measure length"
    by simp
qed simp

subsection \<open>Exceptions and the natural-sort key\<close>

datatype error =
    ValueError string   \<comment> \<open>\<open>int(c)\<close>: invalid literal \<open>c\<close>\<close>
  | TypeError           \<comment> \<open>\<open><\<close> between a \<open>str\<close> and an \<open>int\<close>\<close>

text \<open>An element of a key: a \<open>str\<close> or an \<open>int\<close>.\<close>

datatype token = TStr string | TInt int

fun is_str :: "token \<Rightarrow> bool" where
  "is_str (TStr a) = True"
| "is_str (TInt n) = False"

definition digit_val :: "char \<Rightarrow> int" where
  "digit_val c = int (of_char c) - 48"

text \<open>
  \<open>int(c)\<close>, on the strings the key function passes to it (those with
  \<open>c.isdigit()\<close>, so without sign, blank or underscore): the value of a string of
  decimal digits, and \<open>ValueError\<close> for any other string. The limit that recent
  interpreters put on the length of the digit string (4300 digits by default) is not
  modelled: no file name or path reaches it.
\<close>

definition py_int :: "string \<Rightarrow> error + int" where
  "py_int c =
     (if c \<noteq> [] \<and> list_all is_decimal c
      then Inr (foldl (\<lambda>n d. 10 * n + digit_val d) 0 c)
      else Inl (ValueError c))"

text \<open>\<open>int(c) if c.isdigit() else c.lower()\<close>\<close>

definition convert :: "string \<Rightarrow> error + token" where
  "convert c =
     (if str_isdigit c
      then (case py_int c of Inl e \<Rightarrow> Inl e | Inr n \<Rightarrow> Inr (TInt n))
      else Inr (TStr (str_lower c)))"

text \<open>
  A list comprehension \<open>[f(c) for c in xs]\<close> whose element expression may raise:
  the elements are computed from left to right and the first exception leaves the
  comprehension.
\<close>

fun map_err :: "('a \<Rightarrow> error + 'b) \<Rightarrow> 'a list \<Rightarrow> error + 'b list" where
  "map_err f [] = Inr []"
| "map_err f (x # xs) =
     (case f x of
        Inl e \<Rightarrow> Inl e
      | Inr y \<Rightarrow> (case map_err f xs of Inl e \<Rightarrow> Inl e | Inr ys \<Rightarrow> Inr (y # ys)))"

definition natural_sort_key :: "string \<Rightarrow> error + token list" where
  "natural_sort_key s = map_err convert (re_split s)"

subsection \<open>Comparing keys and sorting\<close>

text \<open>\<open>x < y\<close> on two elements of a key.\<close>

fun tok_lt :: "token \<Rightarrow> token \<Rightarrow> error + bool" where
  "tok_lt (TStr a) (TStr b) = Inr (a < b)"
| "tok_lt (TInt m) (TInt n) = Inr (m < n)"
| "tok_lt (TStr a) (TInt n) = Inl TypeError"
| "tok_lt (TInt m) (TStr b) = Inl TypeError"

text \<open>
  \<open>xs < ys\<close> on two lists: the first position where the elements are not equal decides
  (equality of a \<open>str\<close> and an \<open>int\<close> is false and raises nothing); when one list is a
  prefix of the other the shorter one is the smaller.
\<close>

fun key_lt :: "token list \<Rightarrow> token list \<Rightarrow> error + bool" where
  "key_lt [] [] = Inr False"
| "key_lt [] (y # ys) = Inr True"
| "key_lt (x # xs) [] = Inr False"
| "key_lt (x # xs) (y # ys) = (if x = y then key_lt xs ys else tok_lt x y)"

text \<open>
  \<open>list.sort(key=f)\<close> computes the key of every element first and then sorts the
  elements by their keys with \<open><\<close> only, keeping elements of equal keys in their
  order. The sort is written as an insertion sort: the interpreter's own merge sort asks
  other comparisons, and returns the same list whenever none of them raises.
\<close>

fun insort_lt :: "token list \<times> 'a \<Rightarrow> (token list \<times> 'a) list \<Rightarrow> error + (token list \<times> 'a) list" where
  "insort_lt p [] = Inr [p]"
| "insort_lt p (q # qs) =
     (case key_lt (fst q) (fst p) of
        Inl e \<Rightarrow> Inl e
      | Inr True \<Rightarrow> (case insort_lt p qs of Inl e \<Rightarrow> Inl e | Inr r \<Rightarrow> Inr (q # r))
      | Inr False \<Rightarrow> Inr (p # q # qs))"

fun sort_lt :: "(token list \<times> 'a) list \<Rightarrow> error + (token list \<times> 'a) list" where
  "sort_lt [] = Inr []"
| "sort_lt (p # ps) = (case sort_lt ps of Inl e \<Rightarrow> Inl e | Inr r \<Rightarrow> insort_lt p r)"

definition list_sort :: "('a \<Rightarrow> error + token list) \<Rightarrow> 'a list \<Rightarrow> error + 'a list" where
  "list_sort key xs =
     (case map_err key xs of
        Inl e \<Rightarrow> Inl e
      | Inr ks \<Rightarrow> (case sort_lt (zip ks xs) of Inl e \<Rightarrow> Inl e | Inr r \<Rightarrow> Inr (map snd r)))"

subsection \<open>The file system and the merger\<close>

type_synonym page = nat

text \<open>
  What \<open>merger.append\<close> finds in a file: a document with its pages, or something it
  cannot read, with the reason of the exception it raises.
\<close>

datatype content = Pdf "page list" | Unreadable string

datatype node = File content | Dir "(string \<times> node) list"

text \<open>\<open>os.path.join(a, b)\<close> of \<open>posixpath\<close>.\<close>

definition path_join :: "string \<Rightarrow> string \<Rightarrow> string" where
  "path_join a b =
     (if b \<noteq> [] \<and> hd b = CHR ''/'' then b
      else if a = [] \<or> last a = CHR ''/'' then a @ b
      else a @ ''/'' @ b)"

text \<open>
  \<open>os.walk(top)\<close>, top down and without following links: a folder is yielded with
  its path, then its subfolders are walked in the order of the listing. A path that is
  not a folder yields nothing: the error of listing it is ignored. Each path is kept with
  the entries of the folder it names, which is what \<open>os.listdir\<close> returns for it.
\<close>

fun walk :: "string \<Rightarrow> node \<Rightarrow> (string \<times> (string \<times> node) list) list" where
  "walk root (File c) = []"
| "walk root (Dir es) =
     (root, es) # concat (map (\<lambda>(n, c). walk (path_join root n) c) es)"

definition os_walk :: "string \<Rightarrow> node option \<Rightarrow> (string \<times> (string \<times> node) list) list" where
  "os_walk root fs = (case fs of None \<Rightarrow> [] | Some t \<Rightarrow> walk root t)"

text \<open>
  The outcome of \<open>merger.append(path)\<close>: the pages of the document, or the reason of
  the exception.
\<close>

fun read_pdf :: "node \<Rightarrow> string + page list" where
  "read_pdf (File (Pdf ps)) = Inr ps"
| "read_pdf (File (Unreadable r)) = Inl r"
| "read_pdf (Dir es) = Inl ''Is a directory''"

datatype message =
    CreatedOutputFolder string
  | Added string
  | ErrorAdding string string
  | Combined nat string
  | NoPdfFound

datatype event =
    MakeDirs string             \<comment> \<open>\<open>os.makedirs(output_folder)\<close>\<close>
  | Walk string                 \<comment> \<open>\<open>os.walk(source_folder)\<close>, run to its end\<close>
  | ListDir string              \<comment> \<open>\<open>os.listdir(folder)\<close>\<close>
  | Append string               \<comment> \<open>\<open>merger.append(pdf_path)\<close>\<close>
  | Write string "page list"    \<comment> \<open>\<open>merger.write(output_path)\<close>\<close>
  | Close                       \<comment> \<open>\<open>merger.close()\<close>\<close>
  | Print message

record state =
  merger :: "page list"
  pdf_count :: nat
  events :: "event list"

definition emit :: "event list \<Rightarrow> state \<Rightarrow> state" where
  "emit es st = st\<lparr>events := events st @ es\<rparr>"

subsection \<open>combine\_pdfs\<close>

text \<open>The body of the inner loop: one \<open>try\<close> statement.\<close>

definition add_pdf :: "string \<Rightarrow> state \<Rightarrow> string \<times> node \<Rightarrow> state" where
  "add_pdf folder st entry =
     (let pdf_path = path_join folder (fst entry)
      in case read_pdf (snd entry) of
           Inr ps \<Rightarrow>
             st\<lparr>merger := merger st @ ps, pdf_count := pdf_count st + 1,
                events := events st @ [Append pdf_path, Print (Added pdf_path)]\<rparr>
         | Inl reason \<Rightarrow>
             st\<lparr>events := events st @ [Append pdf_path, Print (ErrorAdding pdf_path reason)]\<rparr>)"

definition add_pdfs :: "string \<Rightarrow> state \<Rightarrow> (string \<times> node) list \<Rightarrow> state" where
  "add_pdfs folder st pdf_files = foldl (add_pdf folder) st pdf_files"

definition is_pdf_name :: "string \<Rightarrow> bool" where
  "is_pdf_name f = endswith (str_lower f) ''.pdf''"

text \<open>
  The body of the outer loop. The listing is filtered and sorted by the key of the file
  name; an exception of the sort is not caught and ends the run in the state reached.
\<close>

definition process_folder :: "state \<Rightarrow> string \<times> (string \<times> node) list \<Rightarrow> state \<times> error option" where
  "process_folder st fd =
     (let st1 = emit [ListDir (fst fd)] st;
          pdf_files = filter (\<lambda>e. is_pdf_name (fst e)) (snd fd)
      in case list_sort (\<lambda>e. natural_sort_key (fst e)) pdf_files of
           Inl e \<Rightarrow> (st1, Some e)
         | Inr sorted_files \<Rightarrow> (add_pdfs (fst fd) st1 sorted_files, None))"

fun process_folders :: "state \<Rightarrow> (string \<times> (string \<times> node) list) list \<Rightarrow> state \<times> error option" where
  "process_folders st [] = (st, None)"
| "process_folders st (fd # fds) =
     (case process_folder st fd of
        (st', Some e) \<Rightarrow> (st', Some e)
      | (st', None) \<Rightarrow> process_folders st' fds)"

text \<open>
  What the run finds outside: whether \<open>output_folder\<close> exists, and what
  \<open>source_folder\<close> names when the walk starts (nothing, a file, or a folder tree).
\<close>

record env =
  out_exists :: bool
  source :: "node option"

definition output_name :: string where
  "output_name = ''combined_pdf.pdf''"

text \<open>The last statement: write the result if a file was added.\<close>

definition save_result :: "string \<Rightarrow> state \<Rightarrow> state" where
  "save_result output_folder st =
     (if pdf_count st > 0
      then (let output_path = path_join output_folder output_name
            in emit [Write output_path (merger st), Close,
                     Print (Combined (pdf_count st) output_path)] st)
      else emit [Print NoPdfFound] st)"

text \<open>
  The run: the state reached, and the exception that ended it (\<open>None\<close> when
  \<open>combine_pdfs\<close> returns).
\<close>

definition combine_pdfs :: "env \<Rightarrow> string \<Rightarrow> string \<Rightarrow> state \<times> error option" where
  "combine_pdfs w source_folder output_folder =
     (let st0 = \<lparr>merger = [], pdf_count = 0, events = []\<rparr>;
          st1 = (if \<not> out_exists w
                 then emit [MakeDirs output_folder, Print (CreatedOutputFolder output_folder)] st0
                 else st0);
          all_folders = os_walk source_folder (source w);
          st2 = emit [Walk source_folder] st1
      in case list_sort (\<lambda>fd. natural_sort_key (fst fd)) all_folders of
           Inl e \<Rightarrow> (st2, Some e)
         | Inr sorted_folders \<Rightarrow>
             (case process_folders st2 sorted_folders of
                (st3, Some e) \<Rightarrow> (st3, Some e)
              | (st3, None) \<Rightarrow> (save_result output_folder st3, None)))"

subsection \<open>The specification's words\<close>

text \<open>
  The sort key of the specification: the name is split on its maximal runs of decimal
  digits; each run becomes its number and every other part is lowercased. In the split
  the runs are the parts at the odd positions.
\<close>

fun spec_tokens :: "string list \<Rightarrow> token list" where
  "spec_tokens [] = []"
| "spec_tokens [g] = [TStr (str_lower g)]"
| "spec_tokens (g # d # rest) =
     TStr (str_lower g) # TInt (foldl (\<lambda>n c. 10 * n + digit_val c) 0 d) # spec_tokens rest"

definition spec_key :: "string \<Rightarrow> token list" where
  "spec_key s = spec_tokens (re_split s)"

text \<open>
  The order of the tokens: numbers by value, strings by code point. A string is put before
  a number; between the keys of two names a string is never compared with a number.
  Keys, as lists, are then ordered lexicographically, a proper prefix first.
\<close>

instantiation token :: linorder
begin

fun less_token :: "token \<Rightarrow> token \<Rightarrow> bool" where
  "less_token (TStr a) (TStr b) = (a < b)"
| "less_token (TInt m) (TInt n) = (m < n)"
| "less_token (TStr a) (TInt n) = True"
| "less_token (TInt m) (TStr b) = False"

definition less_eq_token :: "token \<Rightarrow> token \<Rightarrow> bool" where
  "less_eq_token x y = (x < y \<or> x = y)"

instance
proof
  fix x y z :: token
  show "(x < y) = (x \<le> y \<and> \<not> y \<le> x)"
    by (cases x; cases y) (auto simp: less_eq_token_def)
  show "x \<le> x"
    by (simp add: less_eq_token_def)
  show "x \<le> y \<Longrightarrow> y \<le> z \<Longrightarrow> x \<le> z"
    by (cases x; cases y; cases z) (auto simp: less_eq_token_def)
  show "x \<le> y \<Longrightarrow> y \<le> x \<Longrightarrow> x = y"
    by (cases x; cases y) (auto simp: less_eq_token_def)
  show "x \<le> y \<or> y \<le> x"
    by (cases x; cases y) (auto simp: less_eq_token_def)
qed

end

text \<open>
  The files of a tree in the order of the specification: the folders the walk discovers,
  sorted by the key of their path, and in each folder the files named \<open>*.pdf\<close>, sorted by
  the key of their name. \<open>sort_key\<close> is the library's stable sort. Each file is given
  with its path.
\<close>

definition pdf_entries :: "(string \<times> node) list \<Rightarrow> (string \<times> node) list" where
  "pdf_entries es = filter (\<lambda>e. is_pdf_name (fst e)) es"

definition sorted_pdfs :: "(string \<times> node) list \<Rightarrow> (string \<times> node) list" where
  "sorted_pdfs es = sort_key (\<lambda>e. spec_key (fst e)) (pdf_entries es)"

definition spec_folder_files :: "string \<times> (string \<times> node) list \<Rightarrow> (string \<times> node) list" where
  "spec_folder_files fd = map (\<lambda>e. (path_join (fst fd) (fst e), snd e)) (sorted_pdfs (snd fd))"

definition spec_folders :: "string \<Rightarrow> node option \<Rightarrow> (string \<times> (string \<times> node) list) list" where
  "spec_folders source_folder fs = sort_key (\<lambda>fd. spec_key (fst fd)) (os_walk source_folder fs)"

definition spec_files :: "string \<Rightarrow> node option \<Rightarrow> (string \<times> node) list" where
  "spec_files source_folder fs = concat (map spec_folder_files (spec_folders source_folder fs))"

text \<open>
  The files under the source folder whose name ends in \<open>.pdf\<close>, folder by folder in the
  order of the walk, each with its path.
\<close>

definition tree_pdf_files :: "string \<Rightarrow> node option \<Rightarrow> (string \<times> node) list" where
  "tree_pdf_files source_folder fs =
     concat (map (\<lambda>fd. map (\<lambda>e. (path_join (fst fd) (fst e), snd e)) (pdf_entries (snd fd)))
       (os_walk source_folder fs))"

text \<open>
  The files the merger can read, and the pages a file contributes: its own pages in their
  order.
\<close>

definition readable :: "node \<Rightarrow> bool" where
  "readable n = (case read_pdf n of Inr ps \<Rightarrow> True | Inl r \<Rightarrow> False)"

definition pages_of :: "node \<Rightarrow> page list" where
  "pages_of n = (case read_pdf n of Inr ps \<Rightarrow> ps | Inl r \<Rightarrow> [])"

definition spec_added :: "string \<Rightarrow> node option \<Rightarrow> (string \<times> node) list" where
  "spec_added source_folder fs = filter (\<lambda>f. readable (snd f)) (spec_files source_folder fs)"

definition spec_pages :: "string \<Rightarrow> node option \<Rightarrow> page list" where
  "spec_pages source_folder fs = concat (map (\<lambda>f. pages_of (snd f)) (spec_added source_folder fs))"

subsection \<open>Reading the events of a run\<close>

text \<open>The paths reported as added, in order.\<close>

fun added_path :: "event \<Rightarrow> string list" where
  "added_path (Print (Added p)) = [p]"
| "added_path ev = []"

definition added :: "event list \<Rightarrow> string list" where
  "added evs = concat (map added_path evs)"

text \<open>The paths given to the merger, in order.\<close>

fun attempt_path :: "event \<Rightarrow> string list" where
  "attempt_path (Append p) = [p]"
| "attempt_path ev = []"

definition attempts :: "event list \<Rightarrow> string list" where
  "attempts evs = concat (map attempt_path evs)"

subsection \<open>A tree without some of its files\<close>

text \<open>
  The tree without the entries that satisfy \<open>d\<close>, in every folder; and what this does to
  an entry and to the listing of a folder.
\<close>

fun prune :: "(string \<times> node \<Rightarrow> bool) \<Rightarrow> node \<Rightarrow> node" where
  "prune d (File c) = File c"
| "prune d (Dir es) = Dir (map (\<lambda>e. (fst e, prune d (snd e))) (filter (\<lambda>e. \<not> d e) es))"

definition prune_entry :: "(string \<times> node \<Rightarrow> bool) \<Rightarrow> string \<times> node \<Rightarrow> string \<times> node" where
  "prune_entry d e = (fst e, prune d (snd e))"

definition prune_listing ::
  "(string \<times> node \<Rightarrow> bool) \<Rightarrow> string \<times> (string \<times> node) list \<Rightarrow> string \<times> (string \<times> node) list" where
  "prune_listing d fd = (fst fd, map (prune_entry d) (filter (\<lambda>e. \<not> d e) (snd fd)))"

subsection \<open>Auxiliary definitions\<close>

text \<open>
  The shape of a split: parts without decimal digits at the even positions, non-empty
  runs of decimal digits at the odd ones, and a part without digits at the end.
\<close>

fun alt_parts :: "string list \<Rightarrow> bool" where
  "alt_parts [] = False"
| "alt_parts [g] = list_all (\<lambda>c. \<not> is_decimal c) g"
| "alt_parts (g # d # rest) =
     (list_all (\<lambda>c. \<not> is_decimal c) g \<and> d \<noteq> [] \<and> list_all is_decimal d \<and> alt_parts rest)"

text \<open>A key whose elements are alternately strings and numbers; \<open>b\<close> tells whether the
  first one is a string.\<close>

fun alt :: "bool \<Rightarrow> token list \<Rightarrow> bool" where
  "alt b [] = True"
| "alt b (t # ts) = (is_str t = b \<and> alt (\<not> b) ts)"

text \<open>The events of one pass of the inner loop, and a pass of the outer loop whose sort
  raises nothing.\<close>

definition entry_events :: "string \<Rightarrow> string \<times> node \<Rightarrow> event list" where
  "entry_events folder e =
     (case read_pdf (snd e) of
        Inr ps \<Rightarrow> [Append (path_join folder (fst e)), Print (Added (path_join folder (fst e)))]
      | Inl r \<Rightarrow> [Append (path_join folder (fst e)), Print (ErrorAdding (path_join folder (fst e)) r)])"

definition folder_step :: "state \<Rightarrow> string \<times> (string \<times> node) list \<Rightarrow> state" where
  "folder_step st fd = add_pdfs (fst fd) (emit [ListDir (fst fd)] st) (sorted_pdfs (snd fd))"

definition folders_done :: "state \<Rightarrow> (string \<times> (string \<times> node) list) list \<Rightarrow> state" where
  "folders_done st fds = foldl folder_step st fds"

definition folder_events :: "string \<times> (string \<times> node) list \<Rightarrow> event list" where
  "folder_events fd = ListDir (fst fd) # concat (map (entry_events (fst fd)) (sorted_pdfs (snd fd)))"

definition folder_pages :: "string \<times> (string \<times> node) list \<Rightarrow> page list" where
  "folder_pages fd = concat (map (\<lambda>e. pages_of (snd e)) (sorted_pdfs (snd fd)))"

definition folder_added :: "string \<times> (string \<times> node) list \<Rightarrow> nat" where
  "folder_added fd = length (filter (\<lambda>e. readable (snd e)) (sorted_pdfs (snd fd)))"

text \<open>The exception of a result, and two states that agree on what was merged.\<close>

definition err_of :: "error + 'a \<Rightarrow> error option" where
  "err_of r = (case r of Inl e \<Rightarrow> Some e | Inr x \<Rightarrow> None)"

definition same_out :: "state \<Rightarrow> state \<Rightarrow> bool" where
  "same_out st st' =
     (merger st = merger st' \<and> pdf_count st = pdf_count st'
      \<and> added (events st) = added (events st'))"

text \<open>The state when the walk has ended.\<close>

definition started :: "env \<Rightarrow> string \<Rightarrow> string \<Rightarrow> state" where
  "started w source_folder output_folder =
     \<lparr>merger = [], pdf_count = 0,
      events = (if out_exists w then []
                else [MakeDirs output_folder, Print (CreatedOutputFolder output_folder)])
               @ [Walk source_folder]\<rparr>"

section \<open>Properties\<close>


subsection \<open>The split\<close>

lemma re_split_concat: "concat (re_split s) = s"
proof (induction s rule: re_split.induct)
  case (1 s)
  show ?case
  proof (cases "dropWhile (\<lambda>c. \<not> is_decimal c) s")
    case Nil
    then show ?thesis by (subst re_split.simps) (simp only: list.case concat.simps append_Nil2)
  next
    case (Cons d ds)
    have "s = takeWhile (\<lambda>c. \<not> is_decimal c) s @ d # ds"
      using Cons by (metis takeWhile_dropWhile_id)
    moreover have "ds = takeWhile is_decimal ds @ dropWhile is_decimal ds"
      by simp
    ultimately show ?thesis
      using Cons "1.IH"[OF Cons] by (subst re_split.simps) (simp del: takeWhile_dropWhile_id)
  qed
qed

lemma re_split_alt: "alt_parts (re_split s)"
proof (induction s rule: re_split.induct)
  case (1 s)
  show ?case
  proof (cases "dropWhile (\<lambda>c. \<not> is_decimal c) s")
    case Nil
    then have "list_all (\<lambda>c. \<not> is_decimal c) s"
      by (simp add: list_all_iff)
    with Nil show ?thesis by (subst re_split.simps) (simp only: list.case alt_parts.simps)
  next
    case (Cons d ds)
    have g: "list_all (\<lambda>c. \<not> is_decimal c) (takeWhile (\<lambda>c. \<not> is_decimal c) s)"
      by (auto simp: list_all_iff dest: set_takeWhileD)
    have "is_decimal d"
      using Cons by (metis (mono_tags, lifting) hd_dropWhile list.distinct(1) list.sel(1))
    moreover have "list_all is_decimal (takeWhile is_decimal ds)"
      by (auto simp: list_all_iff dest: set_takeWhileD)
    ultimately show ?thesis
      using Cons "1.IH"[OF Cons] g by (subst re_split.simps) simp
  qed
qed

subsection \<open>Keys\<close>

lemma convert_run: "d \<noteq> [] \<Longrightarrow> list_all is_decimal d \<Longrightarrow>
  convert d = Inr (TInt (foldl (\<lambda>n c. 10 * n + digit_val c) 0 d))"
  by (auto simp: convert_def py_int_def str_isdigit_def is_digit_char_def list_all_iff)

lemma convert_gap: "list_all (\<lambda>c. \<not> is_decimal c) g \<Longrightarrow>
  convert g = (if str_isdigit g then Inl (ValueError g) else Inr (TStr (str_lower g)))"
  by (cases g) (auto simp: convert_def py_int_def)

lemma map_err_convert_spec:
  "alt_parts ps \<Longrightarrow> map_err convert ps = Inr ks \<Longrightarrow> ks = spec_tokens ps"
proof (induction ps arbitrary: ks rule: spec_tokens.induct)
  case 1
  then show ?case by simp
next
  case (2 g)
  then show ?case by (auto simp: convert_gap split: if_splits)
next
  case (3 g d rest)
  then show ?case
    by (auto simp: convert_gap convert_run split: if_splits sum.splits)
qed

lemma natural_sort_key_spec: "natural_sort_key s = Inr ks \<Longrightarrow> ks = spec_key s"
  unfolding natural_sort_key_def spec_key_def
  by (rule map_err_convert_spec[OF re_split_alt])

lemma alt_spec_tokens: "alt True (spec_tokens ps)"
  by (induction ps rule: spec_tokens.induct) auto

lemma alt_spec_key: "alt True (spec_key s)"
  by (simp add: spec_key_def alt_spec_tokens)

lemma map_err_convert_error:
  "alt_parts ps \<Longrightarrow> map_err convert ps = Inl e \<Longrightarrow> \<exists>g. e = ValueError g \<and> g \<in> set ps \<and> str_isdigit g \<and> list_all (\<lambda>c. \<not> is_decimal c) g"
proof (induction ps rule: spec_tokens.induct)
  case 1
  then show ?case by simp
next
  case (2 g)
  then show ?case by (auto simp: convert_gap split: if_splits)
next
  case (3 g d rest)
  then show ?case
    by (auto simp: convert_gap convert_run split: if_splits sum.splits)
qed

lemma alt_nth: "alt b ks \<Longrightarrow> i < length ks \<Longrightarrow> is_str (ks ! i) = (even i = b)"
proof (induction ks arbitrary: b i)
  case Nil
  then show ?case by simp
next
  case (Cons t ts)
  then show ?case by (cases i) auto
qed

lemma tok_lt_same: "is_str x = is_str y \<Longrightarrow> tok_lt x y = Inr (x < y)"
  by (cases x; cases y) (simp_all add: less_token.simps)

lemma key_lt_alt: "alt b k1 \<Longrightarrow> alt b k2 \<Longrightarrow> key_lt k1 k2 = Inr (k1 < k2)"
proof (induction k1 k2 arbitrary: b rule: key_lt.induct)
  case (4 x xs y ys)
  then show ?case by (auto simp: tok_lt_same)
qed simp_all



subsection \<open>Sorting\<close>

lemma map_err_Inr: "map_err f xs = Inr ys \<Longrightarrow> map f xs = map Inr ys"
  by (induction xs arbitrary: ys) (auto split: sum.splits)

lemma map_err_total: "map f xs = map Inr ys \<Longrightarrow> map_err f xs = Inr ys"
  by (induction xs arbitrary: ys) (auto split: sum.splits)

lemma map_err_Inl: "map_err f xs = Inl e \<Longrightarrow> \<exists>x \<in> set xs. f x = Inl e"
  by (induction xs) (auto split: sum.splits)

lemma map_err_keys:
  "map_err (\<lambda>x. natural_sort_key (g x)) xs = Inr ks \<Longrightarrow> ks = map (\<lambda>x. spec_key (g x)) xs"
proof (induction xs arbitrary: ks)
  case Nil
  then show ?case by simp
next
  case (Cons x xs)
  then show ?case by (auto split: sum.splits dest: natural_sort_key_spec)
qed

lemma insort_lt_insort_key:
  "alt True (fst p) \<Longrightarrow> list_all (\<lambda>q. alt True (fst q)) qs \<Longrightarrow>
   insort_lt p qs = Inr (insort_key fst p qs)"
proof (induction qs)
  case Nil
  then show ?case by simp
next
  case (Cons q qs)
  then show ?case by (cases "fst q < fst p") (auto simp: key_lt_alt)
qed

lemma sort_lt_sort_key:
  "list_all (\<lambda>q. alt True (fst q)) ps \<Longrightarrow> sort_lt ps = Inr (sort_key fst ps)"
proof (induction ps)
  case Nil
  then show ?case by simp
next
  case (Cons p ps)
  then have "list_all (\<lambda>q. alt True (fst q)) (sort_key fst ps)"
    by (simp add: list_all_iff)
  with Cons show ?case by (simp add: insort_lt_insort_key)
qed

lemma insort_key_decorate:
  "insort_key fst (k x, x) (map (\<lambda>y. (k y, y)) ys) = map (\<lambda>y. (k y, y)) (insort_key k x ys)"
  by (induction ys) auto

lemma sort_key_decorate:
  "sort_key fst (map (\<lambda>y. (k y, y)) xs) = map (\<lambda>y. (k y, y)) (sort_key k xs)"
  by (induction xs) (auto simp: insort_key_decorate)

lemma zip_decorate: "zip (map k xs) xs = map (\<lambda>y. (k y, y)) xs"
  by (induction xs) auto

lemma list_sort_spec:
  assumes "list_sort (\<lambda>x. natural_sort_key (g x)) xs = Inr ys"
  shows "ys = sort_key (\<lambda>x. spec_key (g x)) xs"
proof -
  obtain ks where ks: "map_err (\<lambda>x. natural_sort_key (g x)) xs = Inr ks"
    using assms by (auto simp: list_sort_def split: sum.splits)
  then have ks_eq: "ks = map (\<lambda>x. spec_key (g x)) xs"
    by (rule map_err_keys)
  have "list_all (\<lambda>q. alt True (fst q)) (zip ks xs)"
    unfolding ks_eq zip_decorate by (simp add: list_all_iff alt_spec_key)
  then have "sort_lt (zip ks xs) = Inr (sort_key fst (zip ks xs))"
    by (rule sort_lt_sort_key)
  with assms ks have "ys = map snd (sort_key fst (zip ks xs))"
    by (auto simp: list_sort_def)
  then show ?thesis
    unfolding ks_eq zip_decorate sort_key_decorate by (simp add: comp_def)
qed

lemma list_sort_error:
  assumes "list_sort (\<lambda>x. natural_sort_key (g x)) xs = Inl e"
  shows "\<exists>x \<in> set xs. natural_sort_key (g x) = Inl e"
proof (cases "map_err (\<lambda>x. natural_sort_key (g x)) xs")
  case (Inl e')
  with assms have "e' = e" by (simp add: list_sort_def)
  with Inl show ?thesis by (auto dest: map_err_Inl)
next
  case (Inr ks)
  then have ks_eq: "ks = map (\<lambda>x. spec_key (g x)) xs"
    by (rule map_err_keys)
  have "list_all (\<lambda>q. alt True (fst q)) (zip ks xs)"
    unfolding ks_eq zip_decorate by (simp add: list_all_iff alt_spec_key)
  then have "sort_lt (zip ks xs) = Inr (sort_key fst (zip ks xs))"
    by (rule sort_lt_sort_key)
  with assms Inr show ?thesis by (simp add: list_sort_def)
qed

lemma natural_sort_key_error:
  "natural_sort_key s = Inl e \<Longrightarrow> \<exists>g. e = ValueError g"
  unfolding natural_sort_key_def
  using map_err_convert_error[OF re_split_alt] by blast

lemma list_sort_total:
  assumes "list_all (\<lambda>x. natural_sort_key (g x) = Inr (spec_key (g x))) xs"
  shows "list_sort (\<lambda>x. natural_sort_key (g x)) xs = Inr (sort_key (\<lambda>x. spec_key (g x)) xs)"
proof (cases "list_sort (\<lambda>x. natural_sort_key (g x)) xs")
  case (Inl e)
  then obtain x where "x \<in> set xs" "natural_sort_key (g x) = Inl e"
    by (auto dest: list_sort_error)
  with assms show ?thesis by (auto simp: list_all_iff)
next
  case (Inr ys)
  then show ?thesis by (simp add: list_sort_spec)
qed

subsection \<open>The loops\<close>

lemma add_pdf_fields:
  "merger (add_pdf folder st e) = merger st @ pages_of (snd e)"
  "pdf_count (add_pdf folder st e) = pdf_count st + (if readable (snd e) then 1 else 0)"
  "events (add_pdf folder st e) = events st @ entry_events folder e"
  by (auto simp: add_pdf_def pages_of_def readable_def entry_events_def Let_def split: sum.splits)

lemma add_pdfs_merger:
  "merger (add_pdfs folder st fs) = merger st @ concat (map (\<lambda>e. pages_of (snd e)) fs)"
  unfolding add_pdfs_def by (induction fs arbitrary: st) (simp_all add: add_pdf_fields)

lemma add_pdfs_count:
  "pdf_count (add_pdfs folder st fs) = pdf_count st + length (filter (\<lambda>e. readable (snd e)) fs)"
  unfolding add_pdfs_def by (induction fs arbitrary: st) (simp_all add: add_pdf_fields)

lemma add_pdfs_events:
  "events (add_pdfs folder st fs) = events st @ concat (map (entry_events folder) fs)"
  unfolding add_pdfs_def by (induction fs arbitrary: st) (simp_all add: add_pdf_fields)

lemma process_folder_None:
  assumes "process_folder st fd = (st', None)"
  shows "st' = add_pdfs (fst fd) (emit [ListDir (fst fd)] st) (sorted_pdfs (snd fd))"
  using assms
  by (auto simp: process_folder_def Let_def sorted_pdfs_def pdf_entries_def
      split: sum.splits dest: list_sort_spec)

lemma process_folder_Some:
  assumes "process_folder st fd = (st', Some e)"
  shows "st' = emit [ListDir (fst fd)] st \<and> (\<exists>x \<in> set (pdf_entries (snd fd)). natural_sort_key (fst x) = Inl e)"
proof -
  from assms have st': "st' = emit [ListDir (fst fd)] st"
    and "list_sort (\<lambda>x. natural_sort_key (fst x)) (pdf_entries (snd fd)) = Inl e"
    by (auto simp: process_folder_def Let_def pdf_entries_def split: sum.splits)
  from list_sort_error[OF this(2)] st' show ?thesis by simp
qed



lemma emit_fields [simp]:
  "merger (emit es st) = merger st"
  "pdf_count (emit es st) = pdf_count st"
  "events (emit es st) = events st @ es"
  by (simp_all add: emit_def)

lemma folder_step_fields:
  "merger (folder_step st fd) = merger st @ folder_pages fd"
  "pdf_count (folder_step st fd) = pdf_count st + folder_added fd"
  "events (folder_step st fd) = events st @ folder_events fd"
  by (simp_all add: folder_step_def folder_pages_def folder_added_def folder_events_def
      add_pdfs_merger add_pdfs_count add_pdfs_events)

lemma folders_done_merger:
  "merger (folders_done st fds) = merger st @ concat (map folder_pages fds)"
  unfolding folders_done_def by (induction fds arbitrary: st) (simp_all add: folder_step_fields)

lemma folders_done_count:
  "pdf_count (folders_done st fds) = pdf_count st + sum_list (map folder_added fds)"
  unfolding folders_done_def by (induction fds arbitrary: st) (simp_all add: folder_step_fields)

lemma folders_done_events:
  "events (folders_done st fds) = events st @ concat (map folder_events fds)"
  unfolding folders_done_def by (induction fds arbitrary: st) (simp_all add: folder_step_fields)

lemma folders_done_Cons: "folders_done st (fd # fds) = folders_done (folder_step st fd) fds"
  by (simp add: folders_done_def)

lemma process_folders_None:
  "process_folders st fds = (st', None) \<Longrightarrow> st' = folders_done st fds"
proof (induction fds arbitrary: st)
  case Nil
  then show ?case by (simp add: folders_done_def)
next
  case (Cons fd fds)
  obtain s1 x where pf: "process_folder st fd = (s1, x)"
    by (cases "process_folder st fd")
  with Cons.prems have x: "x = None" and rest: "process_folders s1 fds = (st', None)"
    by (auto split: option.splits)
  from pf x have "s1 = folder_step st fd"
    by (simp add: process_folder_None folder_step_def)
  with Cons.IH[OF rest] show ?case
    by (simp add: folders_done_Cons)
qed

lemma process_folders_Some:
  "process_folders st fds = (st', Some e) \<Longrightarrow>
   \<exists>k < length fds. st' = emit [ListDir (fst (fds ! k))] (folders_done st (take k fds))
      \<and> (\<exists>x \<in> set (pdf_entries (snd (fds ! k))). natural_sort_key (fst x) = Inl e)"
proof (induction fds arbitrary: st)
  case Nil
  then show ?case by simp
next
  case (Cons fd fds)
  obtain s1 x where pf: "process_folder st fd = (s1, x)"
    by (cases "process_folder st fd")
  show ?case
  proof (cases x)
    case None
    with pf Cons.prems have rest: "process_folders s1 fds = (st', Some e)"
      by simp
    from pf None have s1: "s1 = folder_step st fd"
      by (simp add: process_folder_None folder_step_def)
    from Cons.IH[OF rest] obtain k where k: "k < length fds"
      "st' = emit [ListDir (fst (fds ! k))] (folders_done s1 (take k fds))"
      "\<exists>x \<in> set (pdf_entries (snd (fds ! k))). natural_sort_key (fst x) = Inl e"
      by blast
    then have "Suc k < length (fd # fds) \<and>
        st' = emit [ListDir (fst ((fd # fds) ! Suc k))] (folders_done st (take (Suc k) (fd # fds)))
        \<and> (\<exists>x \<in> set (pdf_entries (snd ((fd # fds) ! Suc k))). natural_sort_key (fst x) = Inl e)"
      using s1 by (simp add: folders_done_Cons)
    then show ?thesis by blast
  next
    case (Some e')
    with pf Cons.prems have "e' = e" "st' = s1"
      by simp_all
    with pf Some have "0 < length (fd # fds) \<and>
        st' = emit [ListDir (fst ((fd # fds) ! 0))] (folders_done st (take 0 (fd # fds)))
        \<and> (\<exists>x \<in> set (pdf_entries (snd ((fd # fds) ! 0))). natural_sort_key (fst x) = Inl e)"
      using process_folder_Some[of st fd s1 e] by (simp add: folders_done_def)
    then show ?thesis by blast
  qed
qed

text \<open>The three ways a run ends.\<close>

lemma combine_pdfs_cases:
  fixes w source_folder output_folder
  defines "r \<equiv> combine_pdfs w source_folder output_folder"
    and "s0 \<equiv> started w source_folder output_folder"
    and "fds \<equiv> spec_folders source_folder (source w)"
  obtains
    (folder_key) e fd where "r = (s0, Some e)"
      "fd \<in> set (os_walk source_folder (source w))" "natural_sort_key (fst fd) = Inl e"
  | (file_key) e k x where "k < length fds"
      "r = (emit [ListDir (fst (fds ! k))] (folders_done s0 (take k fds)), Some e)"
      "x \<in> set (pdf_entries (snd (fds ! k)))" "natural_sort_key (fst x) = Inl e"
  | (returns) "r = (save_result output_folder (folders_done s0 fds), None)"
proof -
  have st2: "emit [Walk source_folder]
      (if \<not> out_exists w
       then emit [MakeDirs output_folder, Print (CreatedOutputFolder output_folder)]
              \<lparr>merger = [], pdf_count = 0, events = []\<rparr>
       else \<lparr>merger = [], pdf_count = 0, events = []\<rparr>) = s0"
    by (simp add: s0_def started_def emit_def)
  show thesis
  proof (cases "list_sort (\<lambda>fd. natural_sort_key (fst fd)) (os_walk source_folder (source w))")
    case (Inl e)
    then have "r = (s0, Some e)"
      unfolding r_def combine_pdfs_def Let_def st2 by simp
    moreover obtain fd where "fd \<in> set (os_walk source_folder (source w))"
      "natural_sort_key (fst fd) = Inl e"
      using list_sort_error[OF Inl] by blast
    ultimately show ?thesis by (rule folder_key)
  next
    case (Inr sorted_folders)
    then have sf: "sorted_folders = fds"
      by (simp add: fds_def spec_folders_def list_sort_spec)
    obtain s3 x where pf: "process_folders s0 fds = (s3, x)"
      by (cases "process_folders s0 fds")
    show ?thesis
    proof (cases x)
      case None
      with pf have "s3 = folders_done s0 fds"
        by (simp add: process_folders_None)
      with pf None Inr have "r = (save_result output_folder (folders_done s0 fds), None)"
        unfolding r_def combine_pdfs_def Let_def st2 sf by simp
      then show ?thesis by (rule returns)
    next
      case (Some e)
      with pf Inr have r: "r = (s3, Some e)"
        unfolding r_def combine_pdfs_def Let_def st2 sf by simp
      from pf Some obtain k where "k < length fds"
        "s3 = emit [ListDir (fst (fds ! k))] (folders_done s0 (take k fds))"
        "\<exists>x \<in> set (pdf_entries (snd (fds ! k))). natural_sort_key (fst x) = Inl e"
        using process_folders_Some[of s0 fds s3 e] by blast
      with r show ?thesis by (auto intro: file_key)
    qed
  qed
qed



lemma entry_events_kind:
  "ev \<in> set (entry_events folder e) \<Longrightarrow>
     ev = Append (path_join folder (fst e)) \<or> ev = Print (Added (path_join folder (fst e)))
     \<or> (\<exists>r. ev = Print (ErrorAdding (path_join folder (fst e)) r))"
  by (auto simp: entry_events_def split: sum.splits)

lemma set_sorted_pdfs: "set (sorted_pdfs es) = {e \<in> set es. is_pdf_name (fst e)}"
  by (auto simp: sorted_pdfs_def pdf_entries_def)

lemma folder_events_kind:
  assumes "ev \<in> set (folder_events fd)"
  shows "ev = ListDir (fst fd) \<or>
    (\<exists>e \<in> set (snd fd). is_pdf_name (fst e) \<and>
       (ev = Append (path_join (fst fd) (fst e)) \<or> ev = Print (Added (path_join (fst fd) (fst e)))
        \<or> (\<exists>r. ev = Print (ErrorAdding (path_join (fst fd) (fst e)) r))))"
proof (cases "ev = ListDir (fst fd)")
  case True
  then show ?thesis by simp
next
  case False
  with assms obtain e where "e \<in> set (sorted_pdfs (snd fd))" "ev \<in> set (entry_events (fst fd) e)"
    by (auto simp: folder_events_def)
  then show ?thesis
    using entry_events_kind[of ev "fst fd" e] by (auto simp: set_sorted_pdfs)
qed

lemma set_spec_folders: "set (spec_folders s fs) = set (os_walk s fs)"
  by (simp add: spec_folders_def)

text \<open>Every run: the events after the walk.\<close>

lemma run_events:
  obtains k rest where
    "k \<le> length (spec_folders source_folder (source w))"
    "events (fst (combine_pdfs w source_folder output_folder)) =
       events (started w source_folder output_folder)
       @ concat (map folder_events (take k (spec_folders source_folder (source w)))) @ rest"
    "rest = [] \<or> (\<exists>p. rest = [ListDir p])
       \<or> rest = [Print NoPdfFound]
       \<or> (\<exists>p ps n. rest = [Write p ps, Close, Print (Combined n p)])"
proof (cases rule: combine_pdfs_cases[where w=w and source_folder=source_folder
      and output_folder=output_folder])
  case (folder_key e fd)
  show ?thesis
    by (rule that[of 0 "[]"]) (simp_all add: folder_key)
next
  case (file_key e k x)
  show ?thesis
    by (rule that[of k "[ListDir (fst (spec_folders source_folder (source w) ! k))]"])
      (use file_key in \<open>simp_all add: folders_done_events\<close>)
next
  case returns
  define st where "st = folders_done (started w source_folder output_folder)
    (spec_folders source_folder (source w))"
  show ?thesis
    by (rule that[of "length (spec_folders source_folder (source w))"
          "if pdf_count st > 0
           then [Write (path_join output_folder output_name) (merger st), Close,
                 Print (Combined (pdf_count st) (path_join output_folder output_name))]
           else [Print NoPdfFound]"])
      (simp_all add: returns save_result_def folders_done_events Let_def st_def)
qed



lemma added_append [simp]: "added (xs @ ys) = added xs @ added ys"
  by (simp add: added_def)

lemma added_simps [simp]:
  "added [] = []"
  "added (Print (Added p) # evs) = p # added evs"
  "added (MakeDirs d # evs) = added evs"
  "added (Walk d # evs) = added evs"
  "added (ListDir d # evs) = added evs"
  "added (Append d # evs) = added evs"
  "added (Write d ps # evs) = added evs"
  "added (Close # evs) = added evs"
  "added (Print (CreatedOutputFolder d) # evs) = added evs"
  "added (Print (ErrorAdding d r) # evs) = added evs"
  "added (Print (Combined n d) # evs) = added evs"
  "added (Print NoPdfFound # evs) = added evs"
  by (simp_all add: added_def)

lemma added_entry_events:
  "added (entry_events folder e) = (if readable (snd e) then [path_join folder (fst e)] else [])"
  by (auto simp: entry_events_def readable_def split: sum.splits)

lemma added_entries:
  "added (concat (map (entry_events folder) es)) =
     map (\<lambda>e. path_join folder (fst e)) (filter (\<lambda>e. readable (snd e)) es)"
  by (induction es) (simp_all add: added_entry_events)

lemma added_folder_events:
  "added (folder_events fd) = map fst (filter (\<lambda>f. readable (snd f)) (spec_folder_files fd))"
  by (simp add: folder_events_def added_entries spec_folder_files_def sorted_pdfs_def
      filter_map comp_def)

lemma added_folders:
  "added (concat (map folder_events fds)) =
     map fst (filter (\<lambda>f. readable (snd f)) (concat (map spec_folder_files fds)))"
  by (induction fds) (simp_all add: added_folder_events)

lemma added_started [simp]: "added (events (started w s out)) = []"
  by (simp add: started_def)

lemma pages_unreadable: "\<not> readable n \<Longrightarrow> pages_of n = []"
  by (auto simp: readable_def pages_of_def split: sum.splits)

lemma pages_filter_readable:
  "concat (map (\<lambda>f. pages_of (snd f)) (filter (\<lambda>f. readable (snd f)) fs)) =
   concat (map (\<lambda>f. pages_of (snd f)) fs)"
  by (induction fs) (simp_all add: pages_unreadable)

lemma folder_pages_spec:
  "folder_pages fd = concat (map (\<lambda>f. pages_of (snd f)) (spec_folder_files fd))"
  by (simp add: folder_pages_def spec_folder_files_def sorted_pdfs_def comp_def)

lemma folders_pages_spec:
  "concat (map folder_pages fds) =
   concat (map (\<lambda>f. pages_of (snd f)) (concat (map spec_folder_files fds)))"
  by (induction fds) (simp_all add: folder_pages_spec)

lemma folder_added_length: "folder_added fd = length (added (folder_events fd))"
  by (simp add: folder_added_def added_folder_events spec_folder_files_def sorted_pdfs_def
      filter_map comp_def)

lemma folders_added_length:
  "sum_list (map folder_added fds) = length (added (concat (map folder_events fds)))"
  by (induction fds) (simp_all add: folder_added_length)

lemma write_folder_events: "Write p ps \<notin> set (folder_events fd)"
  using folder_events_kind[of "Write p ps" fd] by auto

lemma write_folders_events: "Write p ps \<notin> set (concat (map folder_events fds))"
  by (auto simp: write_folder_events)

lemma started_fields [simp]:
  "merger (started w s out) = []"
  "pdf_count (started w s out) = 0"
  by (simp_all add: started_def)

lemma write_started: "Write p ps \<notin> set (events (started w s out))"
  by (simp add: started_def)

text \<open>What a run writes.\<close>

lemma written_pages:
  assumes "Write p ps \<in> set (events (fst (combine_pdfs w source_folder output_folder)))"
  shows "ps = spec_pages source_folder (source w)
    \<and> added (events (fst (combine_pdfs w source_folder output_folder)))
        = map fst (spec_added source_folder (source w))"
proof (cases rule: combine_pdfs_cases[where w=w and source_folder=source_folder
      and output_folder=output_folder])
  case (folder_key e fd)
  with assms show ?thesis by (simp add: write_started)
next
  case (file_key e k x)
  with assms show ?thesis
    by (auto simp: folders_done_events write_started write_folder_events)
next
  case returns
  define st where "st = folders_done (started w source_folder output_folder)
    (spec_folders source_folder (source w))"
  have ev: "events st = events (started w source_folder output_folder)
      @ concat (map folder_events (spec_folders source_folder (source w)))"
    by (simp add: st_def folders_done_events)
  have mg: "merger st = spec_pages source_folder (source w)"
    by (simp add: spec_pages_def st_def folders_done_merger folders_pages_spec spec_added_def spec_files_def
        spec_folders_def pages_filter_readable)
  have ad: "added (events st) = map fst (spec_added source_folder (source w))"
    by (simp add: ev added_folders spec_added_def spec_files_def spec_folders_def)
  from assms returns have "Write p ps \<in> set (events (save_result output_folder st))"
    by (simp add: st_def)
  then have "ps = merger st"
    by (auto simp: save_result_def Let_def ev write_started write_folder_events
        split: if_splits)
  moreover have "added (events (save_result output_folder st)) = added (events st)"
    by (simp add: save_result_def Let_def)
  ultimately show ?thesis
    using returns mg ad by (simp add: st_def)
qed

subsection \<open>Further facts about a run\<close>

lemma os_walk_not_folder:
  "fs = None \<or> (\<exists>c. fs = Some (File c)) \<Longrightarrow> os_walk s fs = []"
  by (auto simp: os_walk_def)

lemma makedirs_folder_events: "MakeDirs d \<notin> set (folder_events fd)"
  using folder_events_kind[of "MakeDirs d" fd] by auto

lemma walk_folder_events: "Walk d \<notin> set (folder_events fd)"
  using folder_events_kind[of "Walk d" fd] by auto

lemma natural_sort_key_alt: "natural_sort_key s = Inr ks \<Longrightarrow> alt True ks"
  by (auto dest: natural_sort_key_spec simp: alt_spec_key)

lemma list_sort_names_error:
  "list_sort natural_sort_key names = Inl e \<Longrightarrow> \<exists>g. e = ValueError g"
  using list_sort_error[where g="\<lambda>x. x" and xs=names and e=e]
  by (auto dest: natural_sort_key_error)

lemma list_sort_names_total:
  assumes "list_all (\<lambda>n. \<exists>k. natural_sort_key n = Inr k) names"
  shows "list_sort natural_sort_key names = Inr (sort_key spec_key names)"
proof -
  have "list_all (\<lambda>x. natural_sort_key x = Inr (spec_key x)) names"
    using assms by (auto simp: list_all_iff dest: natural_sort_key_spec)
  then show ?thesis
    using list_sort_total[where g="\<lambda>x. x" and xs=names] by simp
qed

lemma path_join_suffix: "\<exists>x. path_join a b = x @ b"
  unfolding path_join_def
  by (metis append_Nil append_assoc)

lemma endswith_append: "endswith b suffix \<Longrightarrow> endswith (x @ b) suffix"
  by (auto simp: endswith_def)

lemma is_pdf_name_path_join:
  assumes "is_pdf_name b"
  shows "endswith (str_lower (path_join a b)) ''.pdf''"
proof -
  obtain x where "path_join a b = x @ b"
    using path_join_suffix by blast
  then have "str_lower (path_join a b) = str_lower x @ str_lower b"
    by (simp add: str_lower_def)
  with assms show ?thesis
    by (simp add: is_pdf_name_def endswith_append)
qed

lemma tree_pdf_files_iff:
  "f \<in> set (tree_pdf_files s fs) \<longleftrightarrow>
     (\<exists>fd \<in> set (os_walk s fs). \<exists>e \<in> set (snd fd).
        is_pdf_name (fst e) \<and> f = (path_join (fst fd) (fst e), snd e))"
  by (auto simp: tree_pdf_files_def pdf_entries_def)

lemma set_spec_files: "set (spec_files s fs) = set (tree_pdf_files s fs)"
  by (auto simp: spec_files_def spec_folder_files_def tree_pdf_files_def spec_folders_def
      sorted_pdfs_def)

lemma append_in_folder_events:
  assumes "Append p \<in> set (folder_events fd)"
  shows "\<exists>e \<in> set (snd fd). is_pdf_name (fst e) \<and> p = path_join (fst fd) (fst e)"
  using folder_events_kind[OF assms] by auto

lemma returns_state:
  assumes "combine_pdfs w source_folder output_folder = (st, None)"
  shows "st = save_result output_folder
    (folders_done (started w source_folder output_folder) (spec_folders source_folder (source w)))"
  using assms
  by (cases rule: combine_pdfs_cases[where w=w and source_folder=source_folder
        and output_folder=output_folder]) simp_all

lemma no_pdf_folder_events:
  "pdf_entries (snd fd) = [] \<Longrightarrow> folder_events fd = [ListDir (fst fd)]"
  by (simp add: folder_events_def sorted_pdfs_def)

lemma no_pdf_folders_events:
  "list_all (\<lambda>fd. pdf_entries (snd fd) = []) fds \<Longrightarrow>
   concat (map folder_events fds) = map (\<lambda>fd. ListDir (fst fd)) fds"
  by (induction fds) (simp_all add: no_pdf_folder_events)

lemma no_pdf_folders_added:
  "list_all (\<lambda>fd. pdf_entries (snd fd) = []) fds \<Longrightarrow> sum_list (map folder_added fds) = 0"
  by (induction fds) (simp_all add: folder_added_def sorted_pdfs_def)

lemma tree_pdf_files_Nil:
  "tree_pdf_files s fs = [] \<Longrightarrow> list_all (\<lambda>fd. pdf_entries (snd fd) = []) (spec_folders s fs)"
  by (auto simp: tree_pdf_files_def list_all_iff set_spec_folders)

lemma add_pdfs_append:
  "add_pdfs folder st (xs @ ys) = add_pdfs folder (add_pdfs folder st xs) ys"
  by (simp add: add_pdfs_def)

lemma add_pdfs_Cons:
  "add_pdfs folder st (x # xs) = add_pdfs folder (add_pdf folder st x) xs"
  by (simp add: add_pdfs_def)

lemma add_pdf_unreadable:
  "read_pdf (snd bad) = Inl reason \<Longrightarrow>
   add_pdf folder st bad =
     emit [Append (path_join folder (fst bad)),
           Print (ErrorAdding (path_join folder (fst bad)) reason)] st"
  by (simp add: add_pdf_def emit_def Let_def)

lemma run_count_added:
  "pdf_count (fst (combine_pdfs w source_folder output_folder))
     = length (added (events (fst (combine_pdfs w source_folder output_folder))))"
proof (cases rule: combine_pdfs_cases[where w=w and source_folder=source_folder
      and output_folder=output_folder])
  case (folder_key e fd)
  then show ?thesis by simp
next
  case (file_key e k x)
  then show ?thesis
    by (simp add: folders_done_count folders_done_events folders_added_length)
next
  case returns
  then show ?thesis
    by (simp add: save_result_def Let_def folders_done_count folders_done_events
        folders_added_length)
qed

subsection \<open>Removing failing files\<close>

lemma concat_map_filter_Nil:
  "(\<And>x. x \<in> set xs \<Longrightarrow> \<not> keep x \<Longrightarrow> f x = []) \<Longrightarrow>
   concat (map f (filter keep xs)) = concat (map f xs)"
  by (induction xs) auto

lemma walk_prune:
  assumes files: "\<And>e. d e \<Longrightarrow> \<exists>c. snd e = File c"
  shows "walk root (prune d t) = map (prune_listing d) (walk root t)"
proof (induction root t rule: walk.induct)
  case (1 root c)
  then show ?case by simp
next
  case (2 root es)
  have kept: "walk (path_join root (fst e)) (prune d (snd e))
      = map (prune_listing d) (walk (path_join root (fst e)) (snd e))" if "e \<in> set es" for e
    using "2.IH"[of e "fst e" "snd e"] that by simp
  have dropped: "map (prune_listing d) (walk (path_join root (fst e)) (snd e)) = []"
    if "\<not> \<not> d e" for e
    using files[of e] that by auto
  have "concat (map (\<lambda>(n, c). walk (path_join root n) c)
          (map (\<lambda>e. (fst e, prune d (snd e))) (filter (\<lambda>e. \<not> d e) es)))
      = concat (map (\<lambda>e. map (prune_listing d) (walk (path_join root (fst e)) (snd e)))
          (filter (\<lambda>e. \<not> d e) es))"
  proof -
    have a: "map (\<lambda>(n, c). walk (path_join root n) c) (map (\<lambda>e. (fst e, prune d (snd e))) xs)
        = map (\<lambda>e. walk (path_join root (fst e)) (prune d (snd e))) xs" for xs
      by (simp add: comp_def)
    have b: "map (\<lambda>e. walk (path_join root (fst e)) (prune d (snd e))) (filter (\<lambda>e. \<not> d e) es)
        = map (\<lambda>e. map (prune_listing d) (walk (path_join root (fst e)) (snd e)))
            (filter (\<lambda>e. \<not> d e) es)"
      by (rule map_cong) (auto simp: kept)
    show ?thesis
      unfolding a b by (rule refl)
  qed
  also have "\<dots> = concat (map (\<lambda>e. map (prune_listing d) (walk (path_join root (fst e)) (snd e))) es)"
    by (rule concat_map_filter_Nil) (rule dropped)
  also have "\<dots> = map (prune_listing d) (concat (map (\<lambda>(n, c). walk (path_join root n) c) es))"
    by (simp add: map_concat comp_def case_prod_beta)
  finally show ?case
    by (simp add: prune_listing_def prune_entry_def)
qed

lemma err_of_simps [simp]: "err_of (Inl e) = Some e" "err_of (Inr x) = None"
  by (simp_all add: err_of_def)

lemma list_sort_exact:
  "list_sort (\<lambda>x. natural_sort_key (g x)) xs =
     (case err_of (map_err (\<lambda>x. natural_sort_key (g x)) xs) of
        Some e \<Rightarrow> Inl e
      | None \<Rightarrow> Inr (sort_key (\<lambda>x. spec_key (g x)) xs))"
proof (cases "map_err (\<lambda>x. natural_sort_key (g x)) xs")
  case (Inl e)
  then show ?thesis by (simp add: list_sort_def)
next
  case (Inr ks)
  then have all: "list_all (\<lambda>x. natural_sort_key (g x) = Inr (spec_key (g x))) xs"
    using map_err_Inr[OF Inr] map_err_keys[OF Inr]
    by (auto simp: list_all_iff list_eq_iff_nth_eq in_set_conv_nth)
  with Inr show ?thesis by (simp add: list_sort_total)
qed

lemma map_err_map: "map_err f (map h xs) = map_err (\<lambda>x. f (h x)) xs"
  by (induction xs) (simp_all split: sum.splits)

lemma insort_key_map:
  "insort_key k (h x) (map h xs) = map h (insort_key (\<lambda>x. k (h x)) x xs)"
  by (induction xs) simp_all

lemma sort_key_map: "sort_key k (map h xs) = map h (sort_key (\<lambda>x. k (h x)) xs)"
  by (induction xs) (simp_all add: insort_key_map)

lemma err_of_map_err_filter:
  "(\<And>x. x \<in> set xs \<Longrightarrow> \<not> keep x \<Longrightarrow> \<exists>k. f x = Inr k) \<Longrightarrow>
   err_of (map_err f (filter keep xs)) = err_of (map_err f xs)"
proof (induction xs)
  case Nil
  then show ?case by simp
next
  case (Cons x xs)
  then have IH: "err_of (map_err f (filter keep xs)) = err_of (map_err f xs)"
    by simp
  show ?case
  proof (cases "keep x")
    case True
    with IH show ?thesis
      by (auto simp: err_of_def split: sum.splits)
  next
    case False
    with Cons.prems obtain k where "f x = Inr k"
      by auto
    with False IH show ?thesis
      by (auto simp: err_of_def split: sum.splits)
  qed
qed

lemma read_pdf_prune [simp]: "read_pdf (prune d n) = read_pdf n"
  by (cases n) simp_all

lemma prune_entry_simps [simp]:
  "fst (prune_entry d e) = fst e"
  "readable (snd (prune_entry d e)) = readable (snd e)"
  "pages_of (snd (prune_entry d e)) = pages_of (snd e)"
  by (simp_all add: prune_entry_def readable_def pages_of_def)

lemma fst_prune_listing [simp]: "fst (prune_listing d fd) = fst fd"
  by (simp add: prune_listing_def)

lemma pdf_entries_prune:
  "pdf_entries (snd (prune_listing d fd)) =
     map (prune_entry d) (filter (\<lambda>e. \<not> d e) (pdf_entries (snd fd)))"
  by (simp add: prune_listing_def pdf_entries_def filter_map comp_def conj_commute)

lemma sorted_pdfs_prune:
  "sorted_pdfs (snd (prune_listing d fd)) =
     map (prune_entry d) (filter (\<lambda>e. \<not> d e) (sorted_pdfs (snd fd)))"
  by (simp add: sorted_pdfs_def pdf_entries_prune sort_key_map filter_sort)

lemma keys_prune:
  assumes "\<And>e. d e \<Longrightarrow> \<exists>k. natural_sort_key (fst e) = Inr k"
  shows "err_of (map_err (\<lambda>e. natural_sort_key (fst e)) (pdf_entries (snd (prune_listing d fd))))
       = err_of (map_err (\<lambda>e. natural_sort_key (fst e)) (pdf_entries (snd fd)))"
  unfolding pdf_entries_prune map_err_map prune_entry_simps
  by (rule err_of_map_err_filter) (use assms in auto)

lemma dropped_pages:
  assumes "\<And>e. d e \<Longrightarrow> \<exists>r. snd e = File (Unreadable r)"
  shows "concat (map (\<lambda>e. pages_of (snd e)) (filter (\<lambda>e. \<not> d e) es))
       = concat (map (\<lambda>e. pages_of (snd e)) es)"
proof -
  have "pages_of (snd e) = []" if "d e" for e
    using assms[OF that] by (auto simp: pages_of_def)
  then show ?thesis
    by (intro concat_map_filter_Nil) auto
qed

lemma dropped_readable:
  assumes "\<And>e. d e \<Longrightarrow> \<exists>r. snd e = File (Unreadable r)"
  shows "filter (\<lambda>e. \<not> d e \<and> readable (snd e)) es = filter (\<lambda>e. readable (snd e)) es"
proof -
  have "readable (snd e) \<Longrightarrow> \<not> d e" for e
    using assms[of e] by (auto simp: readable_def)
  then show ?thesis
    by (auto intro: filter_cong)
qed

lemma folder_prune:
  assumes "\<And>e. d e \<Longrightarrow> \<exists>r. snd e = File (Unreadable r)"
  shows "folder_pages (prune_listing d fd) = folder_pages fd"
    and "folder_added (prune_listing d fd) = folder_added fd"
    and "added (folder_events (prune_listing d fd)) = added (folder_events fd)"
proof -
  show "folder_pages (prune_listing d fd) = folder_pages fd"
    by (simp add: folder_pages_def sorted_pdfs_prune comp_def dropped_pages[OF assms])
  have r: "filter (\<lambda>e. readable (snd e)) (map (prune_entry d) xs)
      = map (prune_entry d) (filter (\<lambda>e. readable (snd e)) xs)" for xs
    by (simp add: filter_map comp_def)
  show "folder_added (prune_listing d fd) = folder_added fd"
    by (simp add: folder_added_def sorted_pdfs_prune r dropped_readable[OF assms])
  have "added (folder_events (prune_listing d fd)) =
      map (\<lambda>e. path_join (fst fd) (fst e))
        (filter (\<lambda>e. readable (snd e))
          (map (prune_entry d) (filter (\<lambda>e. \<not> d e) (sorted_pdfs (snd fd)))))"
    by (simp only: folder_events_def fst_prune_listing sorted_pdfs_prune added_simps
        added_entries)
  also have "\<dots> = map (\<lambda>e. path_join (fst fd) (fst e))
        (filter (\<lambda>e. readable (snd e)) (sorted_pdfs (snd fd)))"
    by (simp add: r comp_def dropped_readable[OF assms])
  also have "\<dots> = added (folder_events fd)"
    by (simp only: folder_events_def added_simps added_entries)
  finally show "added (folder_events (prune_listing d fd)) = added (folder_events fd)" .
qed

lemma process_folder_exact:
  "process_folder st fd =
     (case err_of (map_err (\<lambda>e. natural_sort_key (fst e)) (pdf_entries (snd fd))) of
        Some e \<Rightarrow> (emit [ListDir (fst fd)] st, Some e)
      | None \<Rightarrow> (folder_step st fd, None))"
  by (simp add: process_folder_def pdf_entries_def[symmetric] list_sort_exact folder_step_def
      sorted_pdfs_def split: option.splits)

lemma same_out_emit_listdir:
  "same_out st st' \<Longrightarrow> same_out (emit [ListDir p] st) (emit [ListDir q] st')"
  by (simp add: same_out_def)

lemma same_out_folder_step:
  assumes "\<And>e. d e \<Longrightarrow> \<exists>r. snd e = File (Unreadable r)"
    and "same_out st st'"
  shows "same_out (folder_step st (prune_listing d fd)) (folder_step st' fd)"
  using assms(2) by (simp add: same_out_def folder_step_fields folder_prune[OF assms(1)])

lemma process_folders_prune:
  assumes files: "\<And>e. d e \<Longrightarrow> \<exists>r. snd e = File (Unreadable r)"
    and keys: "\<And>e. d e \<Longrightarrow> \<exists>k. natural_sort_key (fst e) = Inr k"
  shows "same_out st st' \<Longrightarrow>
     snd (process_folders st (map (prune_listing d) fds)) = snd (process_folders st' fds)
     \<and> same_out (fst (process_folders st (map (prune_listing d) fds)))
          (fst (process_folders st' fds))"
proof (induction fds arbitrary: st st')
  case Nil
  then show ?case by simp
next
  case (Cons fd fds)
  let ?err = "err_of (map_err (\<lambda>e. natural_sort_key (fst e)) (pdf_entries (snd fd)))"
  show ?case
  proof (cases ?err)
    case None
    have "same_out (folder_step st (prune_listing d fd)) (folder_step st' fd)"
      using files Cons.prems by (rule same_out_folder_step)
    from Cons.IH[OF this] None show ?thesis
      by (simp add: process_folder_exact keys_prune[OF keys])
  next
    case (Some e)
    with Cons.prems show ?thesis
      by (simp add: process_folder_exact keys_prune[OF keys] same_out_emit_listdir)
  qed
qed

lemma combine_pdfs_exact:
  "combine_pdfs w source_folder output_folder =
     (case err_of (map_err (\<lambda>fd. natural_sort_key (fst fd)) (os_walk source_folder (source w))) of
        Some e \<Rightarrow> (started w source_folder output_folder, Some e)
      | None \<Rightarrow>
          (case process_folders (started w source_folder output_folder)
                  (spec_folders source_folder (source w)) of
             (st3, Some e) \<Rightarrow> (st3, Some e)
           | (st3, None) \<Rightarrow> (save_result output_folder st3, None)))"
proof -
  have st2: "emit [Walk source_folder]
      (if \<not> out_exists w
       then emit [MakeDirs output_folder, Print (CreatedOutputFolder output_folder)]
              \<lparr>merger = [], pdf_count = 0, events = []\<rparr>
       else \<lparr>merger = [], pdf_count = 0, events = []\<rparr>) = started w source_folder output_folder"
    by (simp add: started_def emit_def)
  show ?thesis
    unfolding combine_pdfs_def Let_def st2 list_sort_exact spec_folders_def
    by (simp split: option.splits)
qed

lemma os_walk_prune:
  assumes "\<And>e. d e \<Longrightarrow> \<exists>r. snd e = File (Unreadable r)"
  shows "os_walk s (map_option (prune d) fs) = map (prune_listing d) (os_walk s fs)"
proof (cases fs)
  case None
  then show ?thesis by (simp add: os_walk_def)
next
  case (Some t)
  have "walk s (prune d t) = map (prune_listing d) (walk s t)"
    by (rule walk_prune) (use assms in blast)
  with Some show ?thesis by (simp add: os_walk_def)
qed

lemma same_out_save_result:
  "same_out st st' \<Longrightarrow> same_out (save_result out st) (save_result out st')"
  by (simp add: same_out_def save_result_def Let_def)

lemma same_out_refl: "same_out st st"
  by (simp add: same_out_def)

lemma write_iff:
  "Write p ps \<in> set (events (fst (combine_pdfs w source_folder output_folder))) \<longleftrightarrow>
     snd (combine_pdfs w source_folder output_folder) = None
     \<and> 0 < pdf_count (fst (combine_pdfs w source_folder output_folder))
     \<and> p = path_join output_folder output_name
     \<and> ps = merger (fst (combine_pdfs w source_folder output_folder))"
proof (cases rule: combine_pdfs_cases[where w=w and source_folder=source_folder
      and output_folder=output_folder])
  case (folder_key e fd)
  then show ?thesis by (simp add: write_started)
next
  case (file_key e k x)
  then show ?thesis
    by (auto simp: folders_done_events write_started write_folder_events)
next
  case returns
  then show ?thesis
    by (auto simp: save_result_def Let_def folders_done_events write_started
        write_folder_events)
qed

lemma run_prune:
  assumes files: "\<And>e. d e \<Longrightarrow> \<exists>r. snd e = File (Unreadable r)"
    and keys: "\<And>e. d e \<Longrightarrow> \<exists>k. natural_sort_key (fst e) = Inr k"
  shows "snd (combine_pdfs (w\<lparr>source := map_option (prune d) (source w)\<rparr>) source_folder output_folder)
       = snd (combine_pdfs w source_folder output_folder)
     \<and> same_out (fst (combine_pdfs (w\<lparr>source := map_option (prune d) (source w)\<rparr>)
                        source_folder output_folder))
          (fst (combine_pdfs w source_folder output_folder))"
proof -
  let ?w = "w\<lparr>source := map_option (prune d) (source w)\<rparr>"
  let ?s0 = "started w source_folder output_folder"
  have s0: "started ?w source_folder output_folder = ?s0"
    by (simp add: started_def)
  have walk: "os_walk source_folder (source ?w)
      = map (prune_listing d) (os_walk source_folder (source w))"
    using os_walk_prune[OF files] by simp
  have folders: "spec_folders source_folder (source ?w)
      = map (prune_listing d) (spec_folders source_folder (source w))"
    by (simp only: spec_folders_def walk sort_key_map fst_prune_listing)
  have err: "err_of (map_err (\<lambda>fd. natural_sort_key (fst fd)) (os_walk source_folder (source ?w)))
      = err_of (map_err (\<lambda>fd. natural_sort_key (fst fd)) (os_walk source_folder (source w)))"
    by (simp only: walk map_err_map fst_prune_listing)
  obtain s3 x where p: "process_folders ?s0 (spec_folders source_folder (source w)) = (s3, x)"
    by (cases "process_folders ?s0 (spec_folders source_folder (source w))")
  obtain s3' x' where p': "process_folders ?s0
      (map (prune_listing d) (spec_folders source_folder (source w))) = (s3', x')"
    by (cases "process_folders ?s0 (map (prune_listing d) (spec_folders source_folder (source w)))")
  have rel: "x' = x \<and> same_out s3' s3"
    using process_folders_prune[OF files keys same_out_refl, of d ?s0
        "spec_folders source_folder (source w)"] p p'
    by simp
  show ?thesis
    unfolding combine_pdfs_exact[of ?w] combine_pdfs_exact[of w] err s0 folders p p'
    using rel
    by (auto simp: same_out_refl same_out_save_result split: option.splits)
qed

subsection \<open>Runs that raise nothing\<close>

lemma attempts_append [simp]: "attempts (xs @ ys) = attempts xs @ attempts ys"
  by (simp add: attempts_def)

lemma attempts_Cons [simp]: "attempts (ev # evs) = attempt_path ev @ attempts evs"
  by (simp add: attempts_def)

lemma attempts_Nil [simp]: "attempts [] = []"
  by (simp add: attempts_def)

lemma attempts_entries:
  "attempts (concat (map (entry_events folder) es)) = map (\<lambda>e. path_join folder (fst e)) es"
  by (induction es) (auto simp: entry_events_def split: sum.splits)

lemma attempts_folder_events: "attempts (folder_events fd) = map fst (spec_folder_files fd)"
  by (simp add: folder_events_def attempts_entries spec_folder_files_def comp_def)

lemma attempts_folders:
  "attempts (concat (map folder_events fds)) = map fst (concat (map spec_folder_files fds))"
  by (induction fds) (simp_all add: attempts_folder_events)

lemma mset_concat_sort_key:
  "mset (concat (map g (sort_key k xs))) = mset (concat (map g xs))"
proof -
  have "mset (concat (map g ys)) = sum_mset (image_mset (\<lambda>x. mset (g x)) (mset ys))" for ys
    by (simp add: mset_concat comp_def flip: sum_mset_sum_list)
  then show ?thesis by simp
qed

lemma mset_spec_files: "mset (spec_files s fs) = mset (tree_pdf_files s fs)"
proof -
  have "mset (spec_folder_files fd)
      = mset (map (\<lambda>e. (path_join (fst fd) (fst e), snd e)) (pdf_entries (snd fd)))" for fd
    by (simp add: spec_folder_files_def sorted_pdfs_def)
  then have "mset (concat (map spec_folder_files fds))
      = mset (concat (map (\<lambda>fd. map (\<lambda>e. (path_join (fst fd) (fst e), snd e))
            (pdf_entries (snd fd))) fds))" for fds
    by (induction fds) simp_all
  then show ?thesis
    by (simp add: spec_files_def spec_folders_def tree_pdf_files_def mset_concat_sort_key)
qed

text \<open>A run that returns has given every file named \<open>*.pdf\<close> to the merger, once for
  each entry of the tree, in the order of the specification.\<close>

lemma all_pdf_files_attempted:
  assumes "combine_pdfs w source_folder output_folder = (st, None)"
  shows "attempts (events st) = map fst (spec_files source_folder (source w))"
    and "mset (attempts (events st)) = mset (map fst (tree_pdf_files source_folder (source w)))"
proof -
  have "st = save_result output_folder
    (folders_done (started w source_folder output_folder) (spec_folders source_folder (source w)))"
    using assms by (rule returns_state)
  then show a: "attempts (events st) = map fst (spec_files source_folder (source w))"
    by (simp add: save_result_def Let_def folders_done_events started_def attempts_folders
        spec_files_def)
  show "mset (attempts (events st)) = mset (map fst (tree_pdf_files source_folder (source w)))"
    unfolding a using mset_spec_files[of source_folder "source w"] by (metis mset_map)
qed

text \<open>A name without superscript digits has the key of the specification.\<close>

lemma set_re_split: "g \<in> set (re_split s) \<Longrightarrow> set g \<subseteq> set s"
  using re_split_concat[of s] by (metis Sup_upper image_eqI set_concat)

lemma natural_sort_key_plain:
  assumes "set s \<inter> {CHR 0xB2, CHR 0xB3, CHR 0xB9} = {}"
  shows "natural_sort_key s = Inr (spec_key s)"
proof (cases "natural_sort_key s")
  case (Inl e)
  then obtain g where g: "g \<in> set (re_split s)" "str_isdigit g"
      "list_all (\<lambda>c. \<not> is_decimal c) g"
    unfolding natural_sort_key_def using map_err_convert_error[OF re_split_alt] by blast
  from g(2,3) obtain c where c: "c \<in> set g" "is_digit_char c" "\<not> is_decimal c"
    by (cases g) (auto simp: str_isdigit_def)
  then have "c \<in> {CHR 0xB2, CHR 0xB3, CHR 0xB9}"
    by (auto simp: is_digit_char_def)
  moreover have "c \<in> set s"
    using c(1) set_re_split[OF g(1)] by blast
  ultimately show ?thesis
    using assms by blast
next
  case (Inr ks)
  then show ?thesis by (simp add: natural_sort_key_spec)
qed

text \<open>A run that returns after a file was added has written the merged pages, last.\<close>

lemma path_join_plain:
  "a \<noteq> [] \<Longrightarrow> last a \<noteq> CHR ''/'' \<Longrightarrow> path_join a output_name = a @ ''/combined_pdf.pdf''"
  by (simp add: path_join_def output_name_def)

lemma output_written:
  assumes "combine_pdfs w source_folder output_folder = (st, None)" and "0 < pdf_count st"
  shows "\<exists>before. events st = before
            @ [Write (path_join output_folder output_name) (merger st), Close,
               Print (Combined (pdf_count st) (path_join output_folder output_name))]
          \<and> (\<forall>p ps. Write p ps \<notin> set before)
          \<and> (MakeDirs output_folder \<in> set before \<longleftrightarrow> \<not> out_exists w)"
proof -
  define s1 where "s1 = folders_done (started w source_folder output_folder)
    (spec_folders source_folder (source w))"
  have st: "st = save_result output_folder s1"
    using returns_state[OF assms(1)] by (simp add: s1_def)
  have ev: "events s1 = events (started w source_folder output_folder)
      @ concat (map folder_events (spec_folders source_folder (source w)))"
    by (simp add: s1_def folders_done_events)
  have "pdf_count st = pdf_count s1" "merger st = merger s1"
    by (simp_all add: st save_result_def Let_def)
  with assms(2) have "events st = events s1
            @ [Write (path_join output_folder output_name) (merger st), Close,
               Print (Combined (pdf_count st) (path_join output_folder output_name))]"
    by (simp add: st save_result_def Let_def)
  moreover have "\<forall>p ps. Write p ps \<notin> set (events s1)"
    by (auto simp: ev write_started write_folder_events)
  moreover have "MakeDirs output_folder \<in> set (events s1) \<longleftrightarrow> \<not> out_exists w"
    by (auto simp: ev started_def makedirs_folder_events)
  ultimately show ?thesis by blast
qed

subsection \<open>The keys that are returned\<close>

text \<open>
  A key that the key function returns has a string at every even position and a number
  at every odd one. Comparing two such keys never compares a string with a number: the
  comparison returns, with the result of the lexicographic order. Sorting a list of names
  by the key never raises \<open>TypeError\<close>, and when every name has a key it returns the
  names in the stable order of their keys.
\<close>

lemma key_types_alternate:
  "(natural_sort_key s = Inr ks \<longrightarrow> (\<forall>i < length ks. is_str (ks ! i) = even i))
   \<and> (natural_sort_key s = Inr ks \<longrightarrow> natural_sort_key t = Inr kt \<longrightarrow>
        key_lt ks kt = Inr (ks < kt))
   \<and> list_sort natural_sort_key names \<noteq> Inl TypeError
   \<and> (list_all (\<lambda>n. \<exists>k. natural_sort_key n = Inr k) names \<longrightarrow>
        list_sort natural_sort_key names = Inr (sort_key spec_key names))"
proof (intro conjI impI allI)
  fix i
  assume "natural_sort_key s = Inr ks" "i < length ks"
  then show "is_str (ks ! i) = even i"
    using alt_nth[of True ks i] by (simp add: natural_sort_key_alt)
next
  assume "natural_sort_key s = Inr ks" "natural_sort_key t = Inr kt"
  then show "key_lt ks kt = Inr (ks < kt)"
    by (intro key_lt_alt[of True]) (simp_all add: natural_sort_key_alt)
next
  show "list_sort natural_sort_key names \<noteq> Inl TypeError"
    using list_sort_names_error[of names TypeError] by auto
next
  assume "list_all (\<lambda>n. \<exists>k. natural_sort_key n = Inr k) names"
  then show "list_sort natural_sort_key names = Inr (sort_key spec_key names)"
    by (rule list_sort_names_total)
qed

lemma key_types_alternate_example:
  "natural_sort_key ''file10.pdf'' = Inr [TStr ''file'', TInt 10, TStr ''.pdf'']
   \<and> natural_sort_key ''file2.pdf'' = Inr [TStr ''file'', TInt 2, TStr ''.pdf'']
   \<and> is_str ([TStr ''file'', TInt 10, TStr ''.pdf''] ! 0)
   \<and> \<not> is_str ([TStr ''file'', TInt 10, TStr ''.pdf''] ! 1)
   \<and> is_str ([TStr ''file'', TInt 10, TStr ''.pdf''] ! 2)
   \<and> key_lt [TStr ''file'', TInt 2, TStr ''.pdf''] [TStr ''file'', TInt 10, TStr ''.pdf''] = Inr True
   \<and> list_sort natural_sort_key [''file10.pdf'', ''File2.pdf'', ''file1.pdf'']
       = Inr [''file1.pdf'', ''File2.pdf'', ''file10.pdf'']"
proof -
  have k10: "natural_sort_key ''file10.pdf'' = Inr [TStr ''file'', TInt 10, TStr ''.pdf'']"
    by code_simp
  have k2: "natural_sort_key ''file2.pdf'' = Inr [TStr ''file'', TInt 2, TStr ''.pdf'']"
    by code_simp
  have all: "list_all (\<lambda>n. \<exists>k. natural_sort_key n = Inr k)
      [''file10.pdf'', ''File2.pdf'', ''file1.pdf'']"
    by (simp add: natural_sort_key_def convert_def str_isdigit_def is_digit_char_def
        is_decimal_def py_int_def)
  have srt: "sort_key spec_key [''file10.pdf'', ''File2.pdf'', ''file1.pdf'']
      = [''file1.pdf'', ''File2.pdf'', ''file10.pdf'']"
    by code_simp
  have lt: "[TStr ''file'', TInt 2, TStr ''.pdf''] < [TStr ''file'', TInt 10, TStr ''.pdf'']"
    by simp
  from key_types_alternate[of "''file10.pdf''" "[TStr ''file'', TInt 10, TStr ''.pdf'']"
      "''file2.pdf''" "[TStr ''file'', TInt 2, TStr ''.pdf'']"
      "[''file10.pdf'', ''File2.pdf'', ''file1.pdf'']"]
    key_types_alternate[of "''file2.pdf''" "[TStr ''file'', TInt 2, TStr ''.pdf'']"
      "''file10.pdf''" "[TStr ''file'', TInt 10, TStr ''.pdf'']" "[]"]
    k10 k2 all srt lt
  show ?thesis by simp
qed

section \<open>The claims\<close>

text \<open>
  C1. When a run writes its output, the pages written are the pages of the files that
  were appended successfully, file after file in the order of the specification (the
  folders sorted by the key of their path, in each folder the \<open>.pdf\<close> files sorted by the
  key of their name), each file with its pages in their own order; the files reported as
  added are these files in this order. In the example the folder lists \<open>a10.pdf\<close>,
  \<open>a2.pdf\<close>, \<open>a1.pdf\<close> and the output holds \<open>a1\<close>, \<open>a2\<close>, \<open>a10\<close>.
\<close>

theorem merged_output_order:
  assumes "Write p ps \<in> set (events (fst (combine_pdfs w source_folder output_folder)))"
  shows "ps = spec_pages source_folder (source w)
    \<and> added (events (fst (combine_pdfs w source_folder output_folder)))
        = map fst (spec_added source_folder (source w))"
  using assms by (rule written_pages)

theorem merged_output_order_witness:
  "Write ''output/combined_pdf.pdf'' [1, 11, 2, 10, 100]
     \<in> set (events (fst (combine_pdfs
          \<lparr>out_exists = False,
           source = Some (Dir [(''a10.pdf'', File (Pdf [10, 100])), (''a2.pdf'', File (Pdf [2])),
                               (''a1.pdf'', File (Pdf [1, 11]))])\<rparr> ''src'' ''output'')))
   \<and> spec_pages ''src'' (Some (Dir [(''a10.pdf'', File (Pdf [10, 100])), (''a2.pdf'', File (Pdf [2])),
                               (''a1.pdf'', File (Pdf [1, 11]))])) = [1, 11, 2, 10, 100]
   \<and> map fst (spec_added ''src'' (Some (Dir [(''a10.pdf'', File (Pdf [10, 100])),
                               (''a2.pdf'', File (Pdf [2])), (''a1.pdf'', File (Pdf [1, 11]))])))
       = [''src/a1.pdf'', ''src/a2.pdf'', ''src/a10.pdf'']"
proof -
  have h: "Write ''output/combined_pdf.pdf'' [1, 11, 2, 10, 100]
     \<in> set (events (fst (combine_pdfs
          \<lparr>out_exists = False,
           source = Some (Dir [(''a10.pdf'', File (Pdf [10, 100])), (''a2.pdf'', File (Pdf [2])),
                               (''a1.pdf'', File (Pdf [1, 11]))])\<rparr> ''src'' ''output'')))"
    by code_simp
  have o: "map fst (spec_added ''src'' (Some (Dir [(''a10.pdf'', File (Pdf [10, 100])),
                               (''a2.pdf'', File (Pdf [2])), (''a1.pdf'', File (Pdf [1, 11]))])))
       = [''src/a1.pdf'', ''src/a2.pdf'', ''src/a10.pdf'']"
    by code_simp
  from merged_output_order[OF h] h o show ?thesis
    by simp
qed

text \<open>
  C2, as it holds. A run on a source folder that does not exist, or that is a file, does
  not fail: the walk ignores the error of the listing and yields nothing. No exception is
  raised, the output folder is created (and its creation reported) when it did not exist,
  nothing is listed, appended or written, the notice that no PDF was found is printed,
  and the run returns.
\<close>

theorem invalid_source_empty_run:
  assumes "source w = None \<or> (\<exists>c. source w = Some (File c))"
  shows "combine_pdfs w source_folder output_folder =
     (\<lparr>merger = [], pdf_count = 0,
       events = (if out_exists w then []
                 else [MakeDirs output_folder, Print (CreatedOutputFolder output_folder)])
                @ [Walk source_folder, Print NoPdfFound]\<rparr>, None)"
proof -
  have "os_walk source_folder (source w) = []"
    using assms by (rule os_walk_not_folder)
  then show ?thesis
    by (simp add: combine_pdfs_def list_sort_def emit_def save_result_def)
qed

theorem invalid_source_empty_run_witness:
  "combine_pdfs \<lparr>out_exists = True, source = Some (File (Pdf [1]))\<rparr> ''report.pdf'' ''output'' =
     (\<lparr>merger = [], pdf_count = 0, events = [Walk ''report.pdf'', Print NoPdfFound]\<rparr>, None)"
  using invalid_source_empty_run[of "\<lparr>out_exists = True, source = Some (File (Pdf [1]))\<rparr>"
      "''report.pdf''" "''output''"]
  by simp

text \<open>
  C2, counterexample to a fatal error. The run on a source folder that does not exist
  returns with no exception, after it has created the output folder and printed the
  notice.
\<close>

theorem missing_source_completes:
  "combine_pdfs \<lparr>out_exists = False, source = None\<rparr> ''missing'' ''output'' =
     (\<lparr>merger = [], pdf_count = 0,
       events = [MakeDirs ''output'', Print (CreatedOutputFolder ''output''),
                 Walk ''missing'', Print NoPdfFound]\<rparr>, None)"
  by (simp add: combine_pdfs_def os_walk_def list_sort_def emit_def save_result_def)

text \<open>
  C3. The key function does not return a key for every name. For the name made of the
  one character SUPERSCRIPT TWO the split has the single part that is the name itself;
  \<open>isdigit\<close> accepts it although it is no run of decimal digits, and \<open>int\<close> raises
  \<open>ValueError\<close>, where the specification's key is the one lowercased string.
\<close>

theorem natural_sort_key_superscript:
  "natural_sort_key [CHR 0xB2] = Inl (ValueError [CHR 0xB2])
   \<and> re_split [CHR 0xB2] = [[CHR 0xB2]]
   \<and> str_isdigit [CHR 0xB2]
   \<and> spec_key [CHR 0xB2] = [TStr [CHR 0xB2]]"
  by code_simp

text \<open>
  C4. Not every file named \<open>*.pdf\<close> under the source folder is given to the merger.
  With a file \<open>a.pdf\<close> and a subfolder whose name is the digit five followed by
  SUPERSCRIPT TWO, sorting the folders raises \<open>ValueError\<close>: the run ends before any
  folder is listed and \<open>a.pdf\<close> is never appended.
\<close>

theorem folder_key_aborts_run:
  "combine_pdfs
     \<lparr>out_exists = True,
      source = Some (Dir [(''a.pdf'', File (Pdf [1])), ([CHR ''5'', CHR 0xB2], Dir [])])\<rparr>
     ''src'' ''output''
   = (\<lparr>merger = [], pdf_count = 0, events = [Walk ''src'']\<rparr>, Some (ValueError [CHR 0xB2]))"
  by code_simp

text \<open>
  C5. When the append of a file raises, the inner loop records the error with the path of
  the file and the reason, leaves the merger and the count as they were, and goes on with
  the files that follow: the pages merged, the count and the files reported as added are
  those of the same loop without the failing file, in the same order. For the whole run:
  take any set of files that the merger cannot read and whose names have a key; the run
  on the tree without these files ends the same way (it returns, or raises the same
  exception), with the same pages merged, the same count, the same files reported as
  added in the same order, and the same output written. In every run the count is the
  number of files reported as added.
\<close>

theorem append_failure_isolated:
  assumes "read_pdf (snd bad) = Inl reason"
    and "\<And>e. failed e \<Longrightarrow>
           (\<exists>r. snd e = File (Unreadable r)) \<and> (\<exists>k. natural_sort_key (fst e) = Inr k)"
  shows "add_pdfs folder st (before @ bad # after) =
           add_pdfs folder
             (emit [Append (path_join folder (fst bad)),
                    Print (ErrorAdding (path_join folder (fst bad)) reason)]
                (add_pdfs folder st before)) after
     \<and> merger (add_pdfs folder st (before @ bad # after))
         = merger (add_pdfs folder st (before @ after))
     \<and> pdf_count (add_pdfs folder st (before @ bad # after))
         = pdf_count (add_pdfs folder st (before @ after))
     \<and> added (events (add_pdfs folder st (before @ bad # after)))
         = added (events (add_pdfs folder st (before @ after)))
     \<and> snd (combine_pdfs (w\<lparr>source := map_option (prune failed) (source w)\<rparr>)
              source_folder output_folder)
         = snd (combine_pdfs w source_folder output_folder)
     \<and> merger (fst (combine_pdfs (w\<lparr>source := map_option (prune failed) (source w)\<rparr>)
              source_folder output_folder))
         = merger (fst (combine_pdfs w source_folder output_folder))
     \<and> pdf_count (fst (combine_pdfs (w\<lparr>source := map_option (prune failed) (source w)\<rparr>)
              source_folder output_folder))
         = pdf_count (fst (combine_pdfs w source_folder output_folder))
     \<and> added (events (fst (combine_pdfs (w\<lparr>source := map_option (prune failed) (source w)\<rparr>)
              source_folder output_folder)))
         = added (events (fst (combine_pdfs w source_folder output_folder)))
     \<and> (Write p ps \<in> set (events (fst (combine_pdfs
              (w\<lparr>source := map_option (prune failed) (source w)\<rparr>) source_folder output_folder)))
          \<longleftrightarrow> Write p ps \<in> set (events (fst (combine_pdfs w source_folder output_folder))))
     \<and> pdf_count (fst (combine_pdfs w source_folder output_folder))
         = length (added (events (fst (combine_pdfs w source_folder output_folder))))"
proof -
  have unread: "\<not> readable (snd bad)" "pages_of (snd bad) = []"
    using assms(1) by (simp_all add: readable_def pages_of_def)
  have l1: "add_pdfs folder st (before @ bad # after) =
           add_pdfs folder
             (emit [Append (path_join folder (fst bad)),
                    Print (ErrorAdding (path_join folder (fst bad)) reason)]
                (add_pdfs folder st before)) after"
    by (simp add: add_pdfs_append add_pdfs_Cons add_pdf_unreadable[OF assms(1)])
  have l2: "merger (add_pdfs folder st (before @ bad # after))
         = merger (add_pdfs folder st (before @ after))"
    by (simp add: add_pdfs_merger unread)
  have l3: "pdf_count (add_pdfs folder st (before @ bad # after))
         = pdf_count (add_pdfs folder st (before @ after))"
    by (simp add: add_pdfs_count unread)
  have l4: "added (events (add_pdfs folder st (before @ bad # after)))
         = added (events (add_pdfs folder st (before @ after)))"
    by (simp add: add_pdfs_events added_entries added_entry_events unread)
  have files: "\<And>e. failed e \<Longrightarrow> \<exists>r. snd e = File (Unreadable r)"
    and keys: "\<And>e. failed e \<Longrightarrow> \<exists>k. natural_sort_key (fst e) = Inr k"
    using assms(2) by blast+
  note run = run_prune[OF files keys, of failed w source_folder output_folder, simplified same_out_def]
  have wr: "Write p ps \<in> set (events (fst (combine_pdfs
              (w\<lparr>source := map_option (prune failed) (source w)\<rparr>) source_folder output_folder)))
          \<longleftrightarrow> Write p ps \<in> set (events (fst (combine_pdfs w source_folder output_folder)))"
    unfolding write_iff using run by simp
  from l1 l2 l3 l4 run wr run_count_added show ?thesis
    by blast
qed

theorem append_failure_isolated_witness:
  "read_pdf (snd (''b.pdf'', File (Unreadable ''corrupt''))) = Inl ''corrupt''
   \<and> natural_sort_key ''b.pdf'' = Inr [TStr ''b.pdf'']
   \<and> add_pdfs ''src'' \<lparr>merger = [], pdf_count = 0, events = []\<rparr>
        ([(''a.pdf'', File (Pdf [1]))] @ (''b.pdf'', File (Unreadable ''corrupt''))
          # [(''c.pdf'', File (Pdf [3]))])
      = \<lparr>merger = [1, 3], pdf_count = 2,
         events = [Append ''src/a.pdf'', Print (Added ''src/a.pdf''),
                   Append ''src/b.pdf'', Print (ErrorAdding ''src/b.pdf'' ''corrupt''),
                   Append ''src/c.pdf'', Print (Added ''src/c.pdf'')]\<rparr>
   \<and> merger (add_pdfs ''src'' \<lparr>merger = [], pdf_count = 0, events = []\<rparr>
        ([(''a.pdf'', File (Pdf [1]))] @ [(''c.pdf'', File (Pdf [3]))])) = [1, 3]
   \<and> pdf_count (add_pdfs ''src'' \<lparr>merger = [], pdf_count = 0, events = []\<rparr>
        ([(''a.pdf'', File (Pdf [1]))] @ [(''c.pdf'', File (Pdf [3]))])) = 2
   \<and> combine_pdfs \<lparr>out_exists = True,
        source = Some (Dir [(''c.pdf'', File (Pdf [3])), (''b.pdf'', File (Unreadable ''corrupt'')),
                            (''a.pdf'', File (Pdf [1]))])\<rparr> ''src'' ''output''
      = (\<lparr>merger = [1, 3], pdf_count = 2,
          events = [Walk ''src'', ListDir ''src'', Append ''src/a.pdf'', Print (Added ''src/a.pdf''),
                    Append ''src/b.pdf'', Print (ErrorAdding ''src/b.pdf'' ''corrupt''),
                    Append ''src/c.pdf'', Print (Added ''src/c.pdf''),
                    Write ''output/combined_pdf.pdf'' [1, 3], Close,
                    Print (Combined 2 ''output/combined_pdf.pdf'')]\<rparr>, None)
   \<and> prune (\<lambda>e. e = (''b.pdf'', File (Unreadable ''corrupt'')))
        (Dir [(''c.pdf'', File (Pdf [3])), (''b.pdf'', File (Unreadable ''corrupt'')),
              (''a.pdf'', File (Pdf [1]))])
      = Dir [(''c.pdf'', File (Pdf [3])), (''a.pdf'', File (Pdf [1]))]
   \<and> merger (fst (combine_pdfs \<lparr>out_exists = True,
        source = Some (Dir [(''c.pdf'', File (Pdf [3])), (''a.pdf'', File (Pdf [1]))])\<rparr>
        ''src'' ''output'')) = [1, 3]
   \<and> added (events (fst (combine_pdfs \<lparr>out_exists = True,
        source = Some (Dir [(''c.pdf'', File (Pdf [3])), (''a.pdf'', File (Pdf [1]))])\<rparr>
        ''src'' ''output''))) = [''src/a.pdf'', ''src/c.pdf'']"
proof -
  have h: "read_pdf (snd (''b.pdf'', File (Unreadable ''corrupt''))) = Inl ''corrupt''"
    by simp
  have k: "natural_sort_key ''b.pdf'' = Inr [TStr ''b.pdf'']"
    by code_simp
  have f: "\<And>e. e = (''b.pdf'', File (Unreadable ''corrupt'')) \<Longrightarrow>
      (\<exists>r. snd e = File (Unreadable r)) \<and> (\<exists>k. natural_sort_key (fst e) = Inr k)"
    using k by simp
  have v: "add_pdfs ''src'' \<lparr>merger = [], pdf_count = 0, events = []\<rparr>
        ([(''a.pdf'', File (Pdf [1]))] @ (''b.pdf'', File (Unreadable ''corrupt''))
          # [(''c.pdf'', File (Pdf [3]))])
      = \<lparr>merger = [1, 3], pdf_count = 2,
         events = [Append ''src/a.pdf'', Print (Added ''src/a.pdf''),
                   Append ''src/b.pdf'', Print (ErrorAdding ''src/b.pdf'' ''corrupt''),
                   Append ''src/c.pdf'', Print (Added ''src/c.pdf'')]\<rparr>"
    by code_simp
  have r: "combine_pdfs \<lparr>out_exists = True,
        source = Some (Dir [(''c.pdf'', File (Pdf [3])), (''b.pdf'', File (Unreadable ''corrupt'')),
                            (''a.pdf'', File (Pdf [1]))])\<rparr> ''src'' ''output''
      = (\<lparr>merger = [1, 3], pdf_count = 2,
          events = [Walk ''src'', ListDir ''src'', Append ''src/a.pdf'', Print (Added ''src/a.pdf''),
                    Append ''src/b.pdf'', Print (ErrorAdding ''src/b.pdf'' ''corrupt''),
                    Append ''src/c.pdf'', Print (Added ''src/c.pdf''),
                    Write ''output/combined_pdf.pdf'' [1, 3], Close,
                    Print (Combined 2 ''output/combined_pdf.pdf'')]\<rparr>, None)"
    by code_simp
  have pr: "prune (\<lambda>e. e = (''b.pdf'', File (Unreadable ''corrupt'')))
        (Dir [(''c.pdf'', File (Pdf [3])), (''b.pdf'', File (Unreadable ''corrupt'')),
              (''a.pdf'', File (Pdf [1]))])
      = Dir [(''c.pdf'', File (Pdf [3])), (''a.pdf'', File (Pdf [1]))]"
    by simp
  note t = append_failure_isolated[OF h f,
      of "\<lambda>e. e = (''b.pdf'', File (Unreadable ''corrupt''))"
         "''src''" "\<lparr>merger = [], pdf_count = 0, events = []\<rparr>"
         "[(''a.pdf'', File (Pdf [1]))]" "[(''c.pdf'', File (Pdf [3]))]"
         "\<lparr>out_exists = True,
           source = Some (Dir [(''c.pdf'', File (Pdf [3])), (''b.pdf'', File (Unreadable ''corrupt'')),
                            (''a.pdf'', File (Pdf [1]))])\<rparr>" "''src''" "''output''"
         "''output/combined_pdf.pdf''" "[1, 3]"]
  from t[THEN conjunct2] h k v r pr show ?thesis
    by simp
qed

text \<open>
  C6, as it holds. For every run that returns: if no file was added then nothing is
  written and the last report is the notice that no PDF was found; and if no file under
  the source folder is named \<open>*.pdf\<close> then no file was added and the events are exactly
  the creation of the output folder with its report (when the folder did not exist), the
  walk, one listing for each folder in the sorted order, and the notice.
\<close>

theorem empty_result_notice:
  assumes "combine_pdfs w source_folder output_folder = (st, None)"
  shows "(pdf_count st = 0 \<longrightarrow>
            (\<forall>p ps. Write p ps \<notin> set (events st)) \<and> last (events st) = Print NoPdfFound)
     \<and> (tree_pdf_files source_folder (source w) = [] \<longrightarrow>
            pdf_count st = 0
          \<and> events st =
              (if out_exists w then []
               else [MakeDirs output_folder, Print (CreatedOutputFolder output_folder)])
              @ Walk source_folder
              # map (\<lambda>fd. ListDir (fst fd)) (spec_folders source_folder (source w))
              @ [Print NoPdfFound])"
proof -
  define s1 where "s1 = folders_done (started w source_folder output_folder)
    (spec_folders source_folder (source w))"
  have st: "st = save_result output_folder s1"
    using returns_state[OF assms] by (simp add: s1_def)
  have ev: "events s1 = events (started w source_folder output_folder)
      @ concat (map folder_events (spec_folders source_folder (source w)))"
    by (simp add: s1_def folders_done_events)
  have cnt: "pdf_count st = pdf_count s1"
    by (simp add: st save_result_def Let_def)
  show ?thesis
  proof (intro conjI impI)
    assume "pdf_count st = 0"
    with cnt have z: "events st = events s1 @ [Print NoPdfFound]"
      by (simp add: st save_result_def)
    then show "\<forall>p ps. Write p ps \<notin> set (events st)"
      by (auto simp: ev write_started write_folder_events)
    from z show "last (events st) = Print NoPdfFound"
      by simp
  next
    assume "tree_pdf_files source_folder (source w) = []"
    then have none: "list_all (\<lambda>fd. pdf_entries (snd fd) = [])
        (spec_folders source_folder (source w))"
      by (rule tree_pdf_files_Nil)
    then have c0: "pdf_count s1 = 0"
      by (simp add: s1_def folders_done_count no_pdf_folders_added)
    with cnt show "pdf_count st = 0"
      by simp
    from c0 have "events st = events s1 @ [Print NoPdfFound]"
      by (simp add: st save_result_def)
    then show "events st =
              (if out_exists w then []
               else [MakeDirs output_folder, Print (CreatedOutputFolder output_folder)])
              @ Walk source_folder
              # map (\<lambda>fd. ListDir (fst fd)) (spec_folders source_folder (source w))
              @ [Print NoPdfFound]"
      by (simp add: ev no_pdf_folders_events[OF none] started_def)
  qed
qed

theorem empty_result_notice_witness:
  "combine_pdfs \<lparr>out_exists = True, source = Some (Dir [(''notes.txt'', File (Pdf [1])),
        (''sub'', Dir [])])\<rparr> ''src'' ''output''
     = (\<lparr>merger = [], pdf_count = 0,
         events = [Walk ''src'', ListDir ''src'', ListDir ''src/sub'', Print NoPdfFound]\<rparr>, None)
   \<and> tree_pdf_files ''src'' (Some (Dir [(''notes.txt'', File (Pdf [1])), (''sub'', Dir [])])) = []
   \<and> spec_folders ''src'' (Some (Dir [(''notes.txt'', File (Pdf [1])), (''sub'', Dir [])]))
       = [(''src'', [(''notes.txt'', File (Pdf [1])), (''sub'', Dir [])]), (''src/sub'', [])]
   \<and> (\<forall>p ps. Write p ps \<notin> set [Walk ''src'', ListDir ''src'', ListDir ''src/sub'', Print NoPdfFound])
   \<and> last [Walk ''src'', ListDir ''src'', ListDir ''src/sub'', Print NoPdfFound] = Print NoPdfFound"
proof -
  have r: "combine_pdfs \<lparr>out_exists = True, source = Some (Dir [(''notes.txt'', File (Pdf [1])),
        (''sub'', Dir [])])\<rparr> ''src'' ''output''
     = (\<lparr>merger = [], pdf_count = 0,
         events = [Walk ''src'', ListDir ''src'', ListDir ''src/sub'', Print NoPdfFound]\<rparr>, None)"
    by code_simp
  have t: "tree_pdf_files ''src'' (Some (Dir [(''notes.txt'', File (Pdf [1])), (''sub'', Dir [])])) = []"
    by code_simp
  have f: "spec_folders ''src'' (Some (Dir [(''notes.txt'', File (Pdf [1])), (''sub'', Dir [])]))
       = [(''src'', [(''notes.txt'', File (Pdf [1])), (''sub'', Dir [])]), (''src/sub'', [])]"
    by code_simp
  from empty_result_notice[OF r] r t f show ?thesis
    by simp
qed

text \<open>
  C6, counterexample to the notice being the only outcome. For a tree without PDF files
  and an output folder that does not exist, the run creates the output folder and
  reports its creation before it walks the tree and prints the notice.
\<close>

theorem empty_tree_creates_folder:
  "combine_pdfs \<lparr>out_exists = False, source = Some (Dir [(''notes.txt'', File (Pdf [1]))])\<rparr>
     ''src'' ''output''
   = (\<lparr>merger = [], pdf_count = 0,
       events = [MakeDirs ''output'', Print (CreatedOutputFolder ''output''), Walk ''src'',
                 ListDir ''src'', Print NoPdfFound]\<rparr>, None)"
  by code_simp

text \<open>
  C7. Every path given to the merger is the path of a file of a walked folder whose name
  ends in \<open>.pdf\<close> whatever the case of the letters, and so does the path itself; the pages
  written are pages of such files only.
\<close>

theorem only_pdf_names_appended:
  "(Append p \<in> set (events (fst (combine_pdfs w source_folder output_folder))) \<longrightarrow>
      p \<in> set (map fst (tree_pdf_files source_folder (source w)))
      \<and> endswith (str_lower p) ''.pdf'')
   \<and> (Write q ps \<in> set (events (fst (combine_pdfs w source_folder output_folder))) \<longrightarrow>
      (\<exists>fs. set fs \<subseteq> set (tree_pdf_files source_folder (source w))
         \<and> ps = concat (map (\<lambda>f. pages_of (snd f)) fs)))"
proof (intro conjI impI)
  assume ap: "Append p \<in> set (events (fst (combine_pdfs w source_folder output_folder)))"
  obtain k rest where ev: "events (fst (combine_pdfs w source_folder output_folder)) =
       events (started w source_folder output_folder)
       @ concat (map folder_events (take k (spec_folders source_folder (source w)))) @ rest"
    and rest: "rest = [] \<or> (\<exists>p. rest = [ListDir p]) \<or> rest = [Print NoPdfFound]
       \<or> (\<exists>p ps n. rest = [Write p ps, Close, Print (Combined n p)])"
    by (rule run_events)
  from ap ev rest obtain fd where fd: "fd \<in> set (take k (spec_folders source_folder (source w)))"
    and "Append p \<in> set (folder_events fd)"
    by (auto simp: started_def split: if_splits)
  then obtain e where e: "e \<in> set (snd fd)" "is_pdf_name (fst e)" "p = path_join (fst fd) (fst e)"
    using append_in_folder_events by blast
  from fd have "fd \<in> set (os_walk source_folder (source w))"
    using set_spec_folders by (metis in_set_takeD)
  with e have "(p, snd e) \<in> set (tree_pdf_files source_folder (source w))"
    unfolding tree_pdf_files_iff by blast
  then show "p \<in> set (map fst (tree_pdf_files source_folder (source w)))"
    by force
  from e show "endswith (str_lower p) ''.pdf''"
    by (simp add: is_pdf_name_path_join)
next
  assume "Write q ps \<in> set (events (fst (combine_pdfs w source_folder output_folder)))"
  then have "ps = spec_pages source_folder (source w)"
    using written_pages by blast
  moreover have "set (spec_added source_folder (source w))
      \<subseteq> set (tree_pdf_files source_folder (source w))"
    by (auto simp: spec_added_def set_spec_files)
  ultimately show "\<exists>fs. set fs \<subseteq> set (tree_pdf_files source_folder (source w))
         \<and> ps = concat (map (\<lambda>f. pages_of (snd f)) fs)"
    unfolding spec_pages_def by blast
qed

theorem only_pdf_names_appended_witness:
  "Append ''src/x.PDF'' \<in> set (events (fst (combine_pdfs
      \<lparr>out_exists = True,
       source = Some (Dir [(''notes.txt'', File (Pdf [9])), (''x.PDF'', File (Pdf [1, 2]))])\<rparr>
      ''src'' ''output'')))
   \<and> Write ''output/combined_pdf.pdf'' [1, 2] \<in> set (events (fst (combine_pdfs
      \<lparr>out_exists = True,
       source = Some (Dir [(''notes.txt'', File (Pdf [9])), (''x.PDF'', File (Pdf [1, 2]))])\<rparr>
      ''src'' ''output'')))
   \<and> map fst (tree_pdf_files ''src''
        (Some (Dir [(''notes.txt'', File (Pdf [9])), (''x.PDF'', File (Pdf [1, 2]))]))) = [''src/x.PDF'']
   \<and> endswith (str_lower ''src/x.PDF'') ''.pdf''
   \<and> (\<exists>fs. set fs \<subseteq> set (tree_pdf_files ''src''
        (Some (Dir [(''notes.txt'', File (Pdf [9])), (''x.PDF'', File (Pdf [1, 2]))])))
         \<and> [1, 2] = concat (map (\<lambda>f. pages_of (snd f)) fs))"
proof -
  have a: "Append ''src/x.PDF'' \<in> set (events (fst (combine_pdfs
      \<lparr>out_exists = True,
       source = Some (Dir [(''notes.txt'', File (Pdf [9])), (''x.PDF'', File (Pdf [1, 2]))])\<rparr>
      ''src'' ''output'')))"
    by code_simp
  have b: "Write ''output/combined_pdf.pdf'' [1, 2] \<in> set (events (fst (combine_pdfs
      \<lparr>out_exists = True,
       source = Some (Dir [(''notes.txt'', File (Pdf [9])), (''x.PDF'', File (Pdf [1, 2]))])\<rparr>
      ''src'' ''output'')))"
    by code_simp
  have c: "map fst (tree_pdf_files ''src''
        (Some (Dir [(''notes.txt'', File (Pdf [9])), (''x.PDF'', File (Pdf [1, 2]))]))) = [''src/x.PDF'']"
    by code_simp
  from only_pdf_names_appended[of "''src/x.PDF''"
      "\<lparr>out_exists = True,
       source = Some (Dir [(''notes.txt'', File (Pdf [9])), (''x.PDF'', File (Pdf [1, 2]))])\<rparr>"
      "''src''" "''output''" "''output/combined_pdf.pdf''" "[1, 2]"] a b c
  show ?thesis by simp
qed

text \<open>
  C8. A run in which a file was appended does not always write its result. With
  \<open>a.pdf\<close> in the source folder and a subfolder holding a file whose name is the digit
  one, SUPERSCRIPT TWO, the digit three and \<open>.pdf\<close>, the file \<open>a.pdf\<close> is appended
  and counted, then the sort of the subfolder's files raises \<open>ValueError\<close> and nothing
  is written to \<open>out/combined_pdf.pdf\<close>.
\<close>

theorem file_key_aborts_after_append:
  "combine_pdfs
     \<lparr>out_exists = False,
      source = Some (Dir [(''a.pdf'', File (Pdf [1])),
                          (''sub'', Dir [([CHR ''1'', CHR 0xB2, CHR ''3'', CHR ''.'', CHR ''p'', CHR ''d'', CHR ''f''],
                                            File (Pdf [2])),
                                           (''b.pdf'', File (Pdf [3]))])])\<rparr>
     ''src'' ''out''
   = (\<lparr>merger = [1], pdf_count = 1,
       events = [MakeDirs ''out'', Print (CreatedOutputFolder ''out''), Walk ''src'',
                 ListDir ''src'', Append ''src/a.pdf'', Print (Added ''src/a.pdf''),
                 ListDir ''src/sub'']\<rparr>,
      Some (ValueError [CHR 0xB2]))"
  by code_simp

text \<open>
  C9. Sorting a list of names by the key is not total. For the two names \<open>a.pdf\<close> and
  the digit five followed by SUPERSCRIPT TWO, the split of the second name is the empty
  string, the run \<open>5\<close> and the part made of the superscript; \<open>isdigit\<close> accepts that
  part, \<open>int\<close> raises \<open>ValueError\<close> while the keys are computed, and the sort raises
  it. No comparison is reached: the exception is not the \<open>TypeError\<close> of a string
  compared with a number.
\<close>

theorem sort_by_key_raises:
  "list_sort natural_sort_key [''a.pdf'', [CHR ''5'', CHR 0xB2]] = Inl (ValueError [CHR 0xB2])
   \<and> re_split [CHR ''5'', CHR 0xB2] = [[], ''5'', [CHR 0xB2]]
   \<and> natural_sort_key [CHR ''5'', CHR 0xB2] = Inl (ValueError [CHR 0xB2])
   \<and> natural_sort_key ''a.pdf'' = Inr [TStr ''a.pdf'']"
  by code_simp

text \<open>
  C10. In every run the first events are the creation of the output folder and its
  report when the folder did not exist, then the walk of the source folder; no folder is
  created after that. This holds whatever the source folder is and whatever the run finds.
\<close>

theorem output_folder_created_first:
  "\<exists>rest. events (fst (combine_pdfs w source_folder output_folder)) =
      (if out_exists w then []
       else [MakeDirs output_folder, Print (CreatedOutputFolder output_folder)])
      @ Walk source_folder # rest
    \<and> (\<forall>d. MakeDirs d \<notin> set rest) \<and> (\<forall>d. Walk d \<notin> set rest)"
proof -
  obtain k rest where ev: "events (fst (combine_pdfs w source_folder output_folder)) =
       events (started w source_folder output_folder)
       @ concat (map folder_events (take k (spec_folders source_folder (source w)))) @ rest"
    and rest: "rest = [] \<or> (\<exists>p. rest = [ListDir p]) \<or> rest = [Print NoPdfFound]
       \<or> (\<exists>p ps n. rest = [Write p ps, Close, Print (Combined n p)])"
    by (rule run_events)
  let ?rest = "concat (map folder_events (take k (spec_folders source_folder (source w)))) @ rest"
  have "events (fst (combine_pdfs w source_folder output_folder)) =
      (if out_exists w then []
       else [MakeDirs output_folder, Print (CreatedOutputFolder output_folder)])
      @ Walk source_folder # ?rest"
    by (simp add: ev started_def)
  moreover have "\<forall>d. MakeDirs d \<notin> set ?rest"
    using rest by (auto simp: makedirs_folder_events)
  moreover have "\<forall>d. Walk d \<notin> set ?rest"
    using rest by (auto simp: walk_folder_events)
  ultimately show ?thesis by blast
qed

theorem output_folder_created_first_witness:
  "\<exists>rest. events (fst (combine_pdfs \<lparr>out_exists = False, source = None\<rparr> ''missing'' ''output'')) =
      [MakeDirs ''output'', Print (CreatedOutputFolder ''output'')] @ Walk ''missing'' # rest
    \<and> (\<forall>d. MakeDirs d \<notin> set rest) \<and> (\<forall>d. Walk d \<notin> set rest)"
  using output_folder_created_first[of "\<lparr>out_exists = False, source = None\<rparr>" "''missing''" "''output''"]
  by simp

end
